(* ===== verification/Fusey_Prelude.thy ===== *)
theory Fusey_Prelude
  imports Main "HOL-Library.Word" "HOL-Library.AList" "HOL-Library.Sublist"
begin

text \<open>
  Shared vocabulary of the development: the Go types the program uses, Go's
  64-bit signed arithmetic, Go maps as association lists, byte slices, and the
  generic lemmas the component theories rely on.

  \<^item> \<^verbatim>\<open>int64\<close> and \<^verbatim>\<open>int\<close> values are HOL integers; every addition, subtraction or
    multiplication the source performs on them goes through \<open>i64\<close>, the
    two's-complement wrap-around.
  \<^item> \<^verbatim>\<open>uint32\<close> and \<^verbatim>\<open>uint64\<close> values are machine words.
  \<^item> a Go map is an association list with distinct keys; ranging over the map
    visits the list, so a theorem about every list is a theorem about every
    iteration order.
  \<^item> a Go string and a byte slice are both lists of \<open>char\<close>, HOL's 8-bit type.
\<close>

section \<open>Types\<close>

type_synonym byte = char
type_synonym bytes = "char list"
type_synonym u32 = "32 word"
type_synonym u64 = "64 word"
type_synonym ino = "64 word"
type_synonym ('k, 'v) gomap = "('k \<times> 'v) list"

named_theorems i64_simps
named_theorems gomap_simps
named_theorems slice_simps

section \<open>Signed 64-bit arithmetic\<close>

definition i64 :: "int \<Rightarrow> int" where
  "i64 x = (x + 2 ^ 63) mod 2 ^ 64 - 2 ^ 63"

definition in_i64 :: "int \<Rightarrow> bool" where
  "in_i64 x \<longleftrightarrow> - (2 ^ 63) \<le> x \<and> x < 2 ^ 63"

lemma i64_id [i64_simps]: "in_i64 x \<Longrightarrow> i64 x = x"
  by (simp add: i64_def in_i64_def)

lemma i64_nonneg [i64_simps]: "0 \<le> x \<Longrightarrow> x < 2 ^ 63 \<Longrightarrow> i64 x = x"
  by (simp add: i64_id in_i64_def)

lemma in_i64_i64 [simp]: "in_i64 (i64 x)"
proof -
  have "0 \<le> (x + 2 ^ 63) mod 2 ^ 64" and "(x + 2 ^ 63) mod 2 ^ 64 < (2 ^ 64 :: int)"
    by simp_all
  then show ?thesis by (simp add: i64_def in_i64_def)
qed

lemma i64_add_left: "i64 (i64 a + b) = i64 (a + b)"
proof -
  have "((a + 2 ^ 63) mod 2 ^ 64 + b) mod 2 ^ 64 = (a + 2 ^ 63 + b) mod (2 ^ 64 :: int)"
    by (rule mod_add_left_eq)
  then show ?thesis by (simp add: i64_def algebra_simps)
qed

section \<open>Unsigned counters\<close>

lemma unat_inc:
  fixes x :: "'a::len word"
  assumes "x \<noteq> - 1"
  shows "unat (x + 1) = unat x + 1"
proof -
  have nz: "x + 1 \<noteq> 0" using assms max_word_wrap by blast
  then have "unat x = unat (x + 1) - 1" using unat_minus_one [OF nz] by simp
  moreover have "unat (x + 1) \<noteq> 0" using nz by (simp add: unat_eq_zero)
  ultimately show ?thesis by simp
qed

lemma less_inc: "x \<noteq> - 1 \<Longrightarrow> x < x + (1 :: 'a::len word)"
  by (simp add: word_less_nat_alt unat_inc)

lemma unat_dec: "0 < unat x \<Longrightarrow> unat (x - 1) = unat x - (1 :: nat)"
  for x :: "'a::len word"
  by (rule unat_minus_one) auto

lemma uint_eq_int_iff: "uint x = int k \<longleftrightarrow> unat x = k"
  by (metis of_nat_eq_iff uint_nat)

lemma uint_dec:
  fixes x :: "'a::len word"
  assumes "0 < unat x"
  shows "uint (x - 1) = uint x - 1"
proof -
  have "uint (x - 1) = int (unat x - 1)" using unat_dec [OF assms] by (simp only: uint_eq_int_iff)
  moreover have "uint x = int (unat x)" by (simp only: uint_eq_int_iff)
  ultimately show ?thesis using assms by linarith
qed

section \<open>Go maps as association lists\<close>

definition keys_ok :: "('k, 'v) gomap \<Rightarrow> bool" where
  "keys_ok m \<longleftrightarrow> distinct (map fst m)"

lemma keys_ok_Nil [simp]: "keys_ok []"
  by (simp add: keys_ok_def)

lemma keys_ok_update [simp]: "keys_ok m \<Longrightarrow> keys_ok (AList.update k v m)"
  by (simp add: keys_ok_def distinct_update)

lemma keys_ok_delete [simp]: "keys_ok m \<Longrightarrow> keys_ok (AList.delete k m)"
  by (simp add: keys_ok_def distinct_delete)

lemmas [simp, gomap_simps] = update_conv' delete_conv'

lemma keys_ok_map_of_iff: "keys_ok m \<Longrightarrow> map_of m k = Some v \<longleftrightarrow> (k, v) \<in> set m"
  by (simp add: keys_ok_def map_of_eq_Some_iff)

lemma map_of_length_pos: "map_of m k = Some v \<Longrightarrow> m \<noteq> []"
  by auto

text \<open>The sum of a weight over the entries of a map.\<close>

definition asum :: "('k \<Rightarrow> 'v \<Rightarrow> 'n::comm_monoid_add) \<Rightarrow> ('k, 'v) gomap \<Rightarrow> 'n" where
  "asum w m = sum_list (map (\<lambda>(k, v). w k v) m)"

lemma asum_Nil [simp]: "asum w [] = 0"
  by (simp add: asum_def)

lemma asum_Cons [simp]: "asum w ((k, v) # m) = w k v + asum w m"
  by (simp add: asum_def)

lemma asum_update_new:
  "map_of m k = None \<Longrightarrow> asum w (AList.update k v m) = asum w m + w k v"
  by (induction m) (auto simp: ac_simps split: if_splits)

lemma asum_update_old:
  "map_of m k = Some v0 \<Longrightarrow> asum w (AList.update k v m) + w k v0 = asum w m + w k v"
proof (induction m)
  case Nil
  then show ?case by simp
next
  case (Cons p m)
  obtain k' v' where p: "p = (k', v')" by force
  show ?case
  proof (cases "k' = k")
    case True
    with Cons.prems p show ?thesis by (simp add: ac_simps)
  next
    case False
    with Cons p have "asum w (AList.update k v m) + w k v0 = asum w m + w k v" by simp
    with False p show ?thesis by (simp add: add.assoc)
  qed
qed

lemma asum_delete:
  "keys_ok m \<Longrightarrow> map_of m k = Some v \<Longrightarrow> asum w (AList.delete k m) + w k v = asum w m"
proof (induction m)
  case Nil
  then show ?case by simp
next
  case (Cons p m)
  obtain k' v' where p: "p = (k', v')" by force
  show ?case
  proof (cases "k' = k")
    case True
    with Cons.prems p have "k \<notin> fst ` set m" by (simp add: keys_ok_def)
    with True Cons.prems p show ?thesis by (simp add: ac_simps)
  next
    case False
    from Cons.prems(1) have "keys_ok m" by (simp add: keys_ok_def)
    with False Cons p have "asum w (AList.delete k m) + w k v = asum w m" by simp
    with False p show ?thesis by (simp add: add.assoc)
  qed
qed

lemma asum_delete_None [simp]:
  "map_of m k = None \<Longrightarrow> AList.delete k m = m"
  by (simp add: map_of_eq_None_iff)

lemma asum_cong:
  "(\<And>k v. (k, v) \<in> set m \<Longrightarrow> w k v = w' k v) \<Longrightarrow> asum w m = asum w' m"
  by (induction m) auto

section \<open>Byte slices\<close>

text \<open>\<^verbatim>\<open>b[off : off+len]\<close> for a range inside \<^verbatim>\<open>b\<close>, and \<^verbatim>\<open>copy(buf[k:], data)\<close>.\<close>

definition byte_slice :: "int \<Rightarrow> int \<Rightarrow> 'a list \<Rightarrow> 'a list" where
  "byte_slice off len b = take (nat len) (drop (nat off) b)"

definition copy_at :: "int \<Rightarrow> 'a list \<Rightarrow> 'a list \<Rightarrow> 'a list" where
  "copy_at k data buf =
     take (nat k) buf @ take (length buf - nat k) data @ drop (nat k + length data) buf"

definition zero_byte :: byte where
  "zero_byte = CHR 0x00"

lemma length_byte_slice [slice_simps]:
  "0 \<le> off \<Longrightarrow> 0 \<le> len \<Longrightarrow> off + len \<le> int (length b) \<Longrightarrow> length (byte_slice off len b) = nat len"
  by (simp add: byte_slice_def)

lemma nth_byte_slice [slice_simps]:
  "0 \<le> off \<Longrightarrow> off + len \<le> int (length b) \<Longrightarrow> int i < len \<Longrightarrow>
   byte_slice off len b ! i = b ! nat (off + int i)"
  by (simp add: byte_slice_def nat_add_distrib)

lemma slice_append_left [slice_simps]:
  "0 \<le> off \<Longrightarrow> off + len \<le> int (length a) \<Longrightarrow> byte_slice off len (a @ b) = byte_slice off len a"
  by (cases "0 \<le> len") (auto simp: byte_slice_def)

lemma slice_append_right [slice_simps]:
  "byte_slice (int (length a)) (int (length b)) (a @ b) = b"
  by (simp add: byte_slice_def)

lemma slice_prefix:
  assumes "prefix a b" and "0 \<le> off" and "off + len \<le> int (length a)"
  shows "byte_slice off len b = byte_slice off len a"
  using assms by (auto simp: prefix_def slice_append_left)

lemma length_copy_at [simp]:
  "0 \<le> k \<Longrightarrow> k \<le> int (length buf) \<Longrightarrow> length (copy_at k data buf) = length buf"
  by (auto simp: copy_at_def min_def)

lemma nth_copy_at:
  assumes "0 \<le> k" and "k + int (length data) \<le> int (length buf)" and "i < length buf"
  shows "copy_at k data buf ! i =
    (if k \<le> int i \<and> int i < k + int (length data) then data ! (i - nat k) else buf ! i)"
  using assms by (auto simp: copy_at_def nth_append min_def)

end
