(* ===== verification/Go_Fmt.thy ===== *)
theory Go_Fmt
  imports Fusey_Prelude
begin

text \<open>
  The part of Go's \<^verbatim>\<open>fmt\<close> and \<^verbatim>\<open>strings\<close> packages the program uses on object
  identifiers: \<^verbatim>\<open>Sprintf\<close> with \<^verbatim>\<open>%d\<close> and \<^verbatim>\<open>%08d\<close>, \<^verbatim>\<open>Sscanf\<close> with the same verbs,
  \<^verbatim>\<open>HasPrefix\<close>, \<^verbatim>\<open>TrimPrefix\<close> and \<^verbatim>\<open>TrimRight\<close>. The main facts are that printing is
  injective and that scanning inverts it.

  \<^verbatim>\<open>Sscanf\<close> skips leading white space (the ASCII space characters here), fails
  on a newline, reads at most the verb's width, and ignores trailing input.
\<close>

section \<open>Decimal notation\<close>

definition digit_char :: "nat \<Rightarrow> char" where
  "digit_char d = char_of (48 + d)"

definition digit_val :: "char \<Rightarrow> nat" where
  "digit_val c = of_char c - 48"

definition is_digit :: "char \<Rightarrow> bool" where
  "is_digit c \<longleftrightarrow> 48 \<le> (of_char c :: nat) \<and> (of_char c :: nat) \<le> 57"

fun dec :: "nat \<Rightarrow> string" where
  "dec n = (if n < 10 then [digit_char n] else dec (n div 10) @ [digit_char (n mod 10)])"

declare dec.simps [simp del]

definition undec :: "string \<Rightarrow> nat" where
  "undec s = foldl (\<lambda>a c. 10 * a + digit_val c) 0 s"

definition pad0 :: "nat \<Rightarrow> string \<Rightarrow> string" where
  "pad0 w s = replicate (w - length s) (CHR ''0'') @ s"

text \<open>\<^verbatim>\<open>Sprintf("%d", x)\<close> and \<^verbatim>\<open>Sprintf("%08d", x)\<close>; the width counts the sign.\<close>

definition fmt_d :: "int \<Rightarrow> string" where
  "fmt_d x = (if x < 0 then ''-'' @ dec (nat (- x)) else dec (nat x))"

definition fmt_08d :: "int \<Rightarrow> string" where
  "fmt_08d x = (if x < 0 then ''-'' @ pad0 7 (dec (nat (- x))) else pad0 8 (dec (nat x)))"

section \<open>Scanning\<close>

definition is_blank :: "char \<Rightarrow> bool" where
  "is_blank c \<longleftrightarrow> c \<in> {CHR 0x09, CHR 0x0B, CHR 0x0C, CHR 0x0D, CHR 0x20}"

definition skip_space :: "string \<Rightarrow> string option" where
  "skip_space s = (let r = dropWhile is_blank s
                   in if r \<noteq> [] \<and> hd r = CHR 0x0A then None else Some r)"

text \<open>\<^verbatim>\<open>Sscanf(s, "%d", &x)\<close> for an unsigned \<^verbatim>\<open>x\<close> of 32 bits.\<close>

definition scan_uint32 :: "string \<Rightarrow> u32 option" where
  "scan_uint32 s =
     (case skip_space s of
        None \<Rightarrow> None
      | Some r \<Rightarrow>
          (let tok = takeWhile is_digit r
           in if tok = [] then None
              else if undec tok < 2 ^ 32 then Some (word_of_nat (undec tok))
              else None))"

text \<open>\<^verbatim>\<open>%08d\<close> for a signed \<^verbatim>\<open>int\<close>: an optional sign and digits, eight characters at most.\<close>

definition scan_int_width :: "nat \<Rightarrow> string \<Rightarrow> int option" where
  "scan_int_width w s =
     (case skip_space s of
        None \<Rightarrow> None
      | Some r0 \<Rightarrow>
          (let r = take w r0;
               neg = (r \<noteq> [] \<and> hd r = CHR ''-'');
               signed = (r \<noteq> [] \<and> (hd r = CHR ''-'' \<or> hd r = CHR ''+''));
               tok = takeWhile is_digit (if signed then tl r else r)
           in if tok = [] then None
              else Some (if neg then - int (undec tok) else int (undec tok))))"

section \<open>Strings\<close>

definition HasPrefix :: "string \<Rightarrow> string \<Rightarrow> bool" where
  "HasPrefix s p \<longleftrightarrow> take (length p) s = p"

definition TrimPrefix :: "string \<Rightarrow> string \<Rightarrow> string" where
  "TrimPrefix s p = (if HasPrefix s p then drop (length p) s else s)"

definition TrimRight :: "string \<Rightarrow> char \<Rightarrow> string" where
  "TrimRight s c = rev (dropWhile (\<lambda>x. x = c) (rev s))"

section \<open>Facts\<close>

lemma HasPrefix_append [simp]: "HasPrefix (p @ s) p"
  by (simp add: HasPrefix_def)

lemma TrimPrefix_append [simp]: "TrimPrefix (p @ s) p = s"
  by (simp add: TrimPrefix_def)

lemma digit_char_digit [simp]: "d < 10 \<Longrightarrow> is_digit (digit_char d)"
  by (simp add: is_digit_def digit_char_def)

lemma digit_val_char [simp]: "d < 10 \<Longrightarrow> digit_val (digit_char d) = d"
  by (simp add: digit_val_def digit_char_def)

lemma digit_zero [simp]: "is_digit (CHR ''0'')" "digit_val (CHR ''0'') = 0"
  by (simp_all add: is_digit_def digit_val_def)

lemma undec_append [simp]: "undec (s @ [c]) = 10 * undec s + digit_val c"
  by (simp add: undec_def)

lemma undec_Nil [simp]: "undec [] = 0"
  by (simp add: undec_def)

lemma dec_nonempty [simp]: "dec n \<noteq> []"
  by (subst dec.simps) simp

lemma dec_digits: "\<forall>c \<in> set (dec n). is_digit c"
proof (induction n rule: dec.induct)
  case (1 n)
  then show ?case by (subst dec.simps) auto
qed

lemma undec_dec [simp]: "undec (dec n) = n"
proof (induction n rule: dec.induct)
  case (1 n)
  show ?case
  proof (cases "n < 10")
    case True
    then show ?thesis by (subst dec.simps) (simp add: undec_def)
  next
    case False
    with 1 have "undec (dec (n div 10)) = n div 10" by simp
    moreover have "dec n = dec (n div 10) @ [digit_char (n mod 10)]"
      using False by (subst dec.simps) simp
    ultimately show ?thesis by simp
  qed
qed

lemma undec_zeros: "undec (replicate k (CHR ''0'') @ s) = undec s"
  by (induction k) (simp_all add: undec_def)

lemma undec_pad0 [simp]: "undec (pad0 w s) = undec s"
  by (simp add: pad0_def undec_zeros)

lemma pad0_digits: "\<forall>c \<in> set s. is_digit c \<Longrightarrow> \<forall>c \<in> set (pad0 w s). is_digit c"
  by (auto simp: pad0_def)

lemma pad0_nonempty [simp]: "s \<noteq> [] \<Longrightarrow> pad0 w s \<noteq> []"
  by (simp add: pad0_def)

lemma length_pad0: "length s \<le> w \<Longrightarrow> length (pad0 w s) = w"
  by (simp add: pad0_def)

lemma fmt_08d_digits: "0 \<le> x \<Longrightarrow> \<forall>c \<in> set (fmt_08d x). is_digit c"
  using pad0_digits [OF dec_digits] by (simp add: fmt_08d_def)

lemma fmt_08d_nonempty [simp]: "fmt_08d x \<noteq> []"
  by (simp add: fmt_08d_def)

lemma undec_fmt_08d: "0 \<le> x \<Longrightarrow> int (undec (fmt_08d x)) = x"
  by (simp add: fmt_08d_def)

lemma fmt_08d_inj: "0 \<le> x \<Longrightarrow> 0 \<le> y \<Longrightarrow> fmt_08d x = fmt_08d y \<Longrightarrow> x = y"
  using undec_fmt_08d by metis

lemma digit_not_blank: "is_digit c \<Longrightarrow> \<not> is_blank c"
  by (auto simp: is_digit_def is_blank_def)

lemma digit_not_special:
  "is_digit c \<Longrightarrow> c \<noteq> CHR 0x0A \<and> c \<noteq> CHR ''-'' \<and> c \<noteq> CHR ''+''"
  by (auto simp: is_digit_def)

lemma skip_space_digits:
  "s \<noteq> [] \<Longrightarrow> \<forall>c \<in> set s. is_digit c \<Longrightarrow> skip_space s = Some s"
  by (cases s) (auto simp: skip_space_def Let_def digit_not_blank digit_not_special)

lemma takeWhile_digits: "\<forall>c \<in> set s. is_digit c \<Longrightarrow> takeWhile is_digit s = s"
  by (simp add: takeWhile_eq_all_conv)

lemma scan_uint32_digits:
  assumes "s \<noteq> []" and "\<forall>c \<in> set s. is_digit c"
  shows "scan_uint32 s = (if undec s < 2 ^ 32 then Some (word_of_nat (undec s)) else None)"
  using assms by (simp add: scan_uint32_def skip_space_digits takeWhile_digits Let_def)

lemma scan_int_width_digits:
  assumes "s \<noteq> []" and "\<forall>c \<in> set s. is_digit c" and "0 < w"
  shows "scan_int_width w s = Some (int (undec (take w s)))"
proof -
  from assms have "hd (take w s) \<in> set s" by simp
  with assms have "hd (take w s) \<noteq> CHR ''-''" and "hd (take w s) \<noteq> CHR ''+''"
    using digit_not_special by blast+
  moreover have "\<forall>c \<in> set (take w s). is_digit c"
    using assms(2) by (blast dest: in_set_takeD)
  ultimately show ?thesis
    using assms by (simp add: scan_int_width_def skip_space_digits takeWhile_digits Let_def)
qed

text \<open>A number of \<open>k\<close> digits is below \<open>10 ^ k\<close>, so it fits the eight columns of \<^verbatim>\<open>%08d\<close>.\<close>

lemma length_dec_le: "n < 10 ^ k \<Longrightarrow> 0 < k \<Longrightarrow> length (dec n) \<le> k"
proof (induction n arbitrary: k rule: dec.induct)
  case (1 n)
  show ?case
  proof (cases "n < 10")
    case True
    with 1 show ?thesis by (subst dec.simps) simp
  next
    case False
    with "1.prems" have "k \<noteq> 1" by auto
    with "1.prems" obtain k' where k: "k = Suc k'" and "0 < k'" by (cases k) auto
    with False "1.prems" have "length (dec (n div 10)) \<le> k'"
      by (intro "1.IH") auto
    with False k show ?thesis by (subst dec.simps) simp
  qed
qed

lemma fmt_08d_short: "0 \<le> x \<Longrightarrow> x < 10 ^ 8 \<Longrightarrow> length (fmt_08d x) = 8"
proof -
  assume "0 \<le> x" and "x < 10 ^ 8"
  then have "nat x < 10 ^ 8" by simp
  then have "length (dec (nat x)) \<le> 8" by (rule length_dec_le) simp
  with \<open>0 \<le> x\<close> show ?thesis by (simp add: fmt_08d_def length_pad0)
qed

lemma scan_fmt_08d:
  assumes "0 \<le> x" and "x < 10 ^ 8"
  shows "scan_int_width 8 (fmt_08d x) = Some x"
  using assms fmt_08d_short [OF assms]
  by (simp add: scan_int_width_digits fmt_08d_digits undec_fmt_08d)

lemma undec_less: "\<forall>c \<in> set s. is_digit c \<Longrightarrow> undec s < 10 ^ length s"
proof (induction s rule: rev_induct)
  case Nil
  then show ?case by simp
next
  case (snoc c s)
  then have "undec s + 1 \<le> 10 ^ length s" and "digit_val c \<le> 9" by (auto simp: is_digit_def digit_val_def)
  then show ?case by simp
qed

lemma scan_int_width_less: "scan_int_width w s = Some k \<Longrightarrow> k < 10 ^ w"
proof -
  have b: "int (undec (takeWhile is_digit r)) < 10 ^ w" if "length r \<le> w" for r
  proof -
    have "undec (takeWhile is_digit r) < 10 ^ length (takeWhile is_digit r)"
      by (rule undec_less) (auto dest: set_takeWhileD)
    also have "\<dots> \<le> 10 ^ w"
      using that length_takeWhile_le [of is_digit r] by (intro power_increasing) simp_all
    finally show ?thesis by (metis of_nat_less_iff of_nat_numeral of_nat_power)
  qed
  assume "scan_int_width w s = Some k"
  then obtain r0 r where "r = tl (take w r0) \<or> r = take w r0"
    and k: "k = int (undec (takeWhile is_digit r)) \<or> k = - int (undec (takeWhile is_digit r))"
    by (auto simp: scan_int_width_def Let_def split: option.splits if_splits)
  then have r: "length r \<le> w" by auto
  have "- int (undec (takeWhile is_digit r)) < 10 ^ w"
    by (rule le_less_trans [of _ 0]) simp_all
  with b [OF r] k show ?thesis by blast
qed

end
