(* ===== verification/Index_Types.thy ===== *)
theory Index_Types
  imports Go_Fmt "HOL-Library.Signed_Division"
begin

text \<open>
  The data types of \<^verbatim>\<open>internal/index/types.go\<close>: inodes, extents, directory
  entries, the snapshot that is persisted, and the two pure helpers
  \<^verbatim>\<open>FullMode\<close> and \<^verbatim>\<open>blocks512\<close>. Field names are the source's.
\<close>

unbundle bit_operations_syntax

section \<open>File types\<close>

definition Regular :: u32 where "Regular = 0x8000"
definition Directory :: u32 where "Directory = 0x4000"
definition Symlink :: u32 where "Symlink = 0xA000"
definition BlockDev :: u32 where "BlockDev = 0x6000"
definition CharDev :: u32 where "CharDev = 0x2000"
definition Fifo :: u32 where "Fifo = 0x1000"
definition Socket :: u32 where "Socket = 0xC000"

lemmas file_type_defs =
  Regular_def Directory_def Symlink_def BlockDev_def CharDev_def Fifo_def Socket_def

lemma file_types_distinct [simp]:
  "Regular \<noteq> Directory" "Directory \<noteq> Regular" "Symlink \<noteq> Directory" "Directory \<noteq> Symlink"
  "Regular \<noteq> Symlink" "Symlink \<noteq> Regular"
  by (simp_all add: file_type_defs)

section \<open>Records\<close>

record Inode =
  Ino :: ino
  FileType :: u32
  Mode :: u32
  Nlink :: u32
  UID :: u32
  GID :: u32
  Size :: int
  Atime :: int
  Mtime :: int
  Ctime :: int
  Blksize :: int
  Blocks :: int
  Rdev :: u32

record Extent =
  ChunkID :: string
  ChunkOffset :: int
  Length :: int
  FileOffset :: int

record DirEntry =
  ParentIno :: ino
  Name :: string
  ChildIno :: ino

text \<open>
  The four maps of a snapshot that \<^verbatim>\<open>FromSnapshot\<close> compares with nil are options;
  \<open>None\<close> is Go's nil map.
\<close>

record Snapshot =
  Inodes :: "(ino, Inode) gomap option"
  DirEntries :: "DirEntry list"
  ExtentMap :: "(ino, Extent list) gomap option"
  SymlinkTargets :: "(ino, string) gomap option"
  Xattrs :: "(ino, (string, string) gomap) gomap option"
  NextIno :: u64

section \<open>Helpers\<close>

definition FullMode :: "Inode \<Rightarrow> u32" where
  "FullMode n = FileType n OR Mode n"

definition blocks512 :: "int \<Rightarrow> int" where
  "blocks512 sz = i64 (sz + 511) sdiv 512"

lemma sdiv_nonneg: "0 \<le> a \<Longrightarrow> 0 < b \<Longrightarrow> a sdiv b = a div (b :: int)"
  by (cases "a = 0") (simp_all add: signed_divide_int_def sgn_mult)

text \<open>The block count is the ceiling of \<^verbatim>\<open>sz / 512\<close> as long as the addition does not wrap.\<close>

lemma blocks512_ceiling:
  assumes "0 \<le> sz" and "sz < 2 ^ 63 - 511"
  shows "sz \<le> 512 * blocks512 sz" and "512 * blocks512 sz < sz + 512"
proof -
  have "blocks512 sz = (sz + 511) div 512"
    using assms by (simp add: blocks512_def i64_simps sdiv_nonneg)
  then show "sz \<le> 512 * blocks512 sz" and "512 * blocks512 sz < sz + 512"
    by simp_all
qed

end
