(* ===== verification/Extents.thy ===== *)
theory Extents
  imports Index_Types
begin

text \<open>
  The loops of \<^verbatim>\<open>internal/index/index.go\<close> that rewrite one file's extent list:
  \<^verbatim>\<open>trimExtents\<close>, the loop of \<^verbatim>\<open>WriteExtent\<close> and the inner loop of \<^verbatim>\<open>RemapExtents\<close>.

  The meaning of an extent list is the partial function \<open>loc\<close> from file offsets
  to places in chunks. Truncation restricts it, a write overrides it on the
  written range, and the lemmas below say when the loops do exactly that.

  \<^verbatim>\<open>WriteExtent\<close> filters its list in place: \<^verbatim>\<open>surviving\<close> starts as
  \<^verbatim>\<open>idx.extents[ino][:0]\<close> and shares the backing array that the loop is still
  reading. The model keeps the array explicit, so an append into a slot that has
  not been read yet is visible to the rest of the loop.
\<close>

section \<open>Truncation\<close>

fun trim_loop :: "int \<Rightarrow> Extent list \<Rightarrow> Extent list" where
  "trim_loop newSize [] = []"
| "trim_loop newSize (e # es) =
     (if newSize \<le> FileOffset e then trim_loop newSize es
      else (if newSize < i64 (FileOffset e + Length e)
            then e\<lparr>Length := i64 (newSize - FileOffset e)\<rparr> else e) # trim_loop newSize es)"

section \<open>The write loop\<close>

text \<open>What one iteration appends for the extent \<open>e\<close> it reads.\<close>

definition write_pieces :: "Extent \<Rightarrow> Extent \<Rightarrow> Extent list" where
  "write_pieces ext e =
     (let end = i64 (FileOffset ext + Length ext);
          eEnd = i64 (FileOffset e + Length e)
      in if eEnd \<le> FileOffset ext \<or> end \<le> FileOffset e then [e]
         else (if FileOffset e < FileOffset ext
               then [\<lparr>ChunkID = ChunkID e, ChunkOffset = ChunkOffset e,
                      Length = i64 (FileOffset ext - FileOffset e), FileOffset = FileOffset e\<rparr>]
               else [])
            @ (if end < eEnd
               then [\<lparr>ChunkID = ChunkID e,
                      ChunkOffset = i64 (ChunkOffset e + i64 (end - FileOffset e)),
                      Length = i64 (eEnd - end), FileOffset = end\<rparr>]
               else []))"

text \<open>
  \<open>push\<close> is \<^verbatim>\<open>surviving = append(surviving, x)\<close>. The first component is the array the
  loop ranges over. An append within its length overwrites a slot of it; an
  append beyond its length is invisible to the loop whether or not Go reallocates.
\<close>

fun push :: "Extent list \<times> Extent list \<Rightarrow> Extent \<Rightarrow> Extent list \<times> Extent list" where
  "push (arr, surviving) x = (arr[length surviving := x], surviving @ [x])"

definition write_step :: "Extent \<Rightarrow> Extent list \<times> Extent list \<Rightarrow> nat \<Rightarrow> Extent list \<times> Extent list" where
  "write_step ext st i = foldl push st (write_pieces ext (fst st ! i))"

definition write_run :: "Extent \<Rightarrow> Extent list \<Rightarrow> nat \<Rightarrow> Extent list \<times> Extent list" where
  "write_run ext exts n = foldl (write_step ext) (exts, []) [0..<n]"

definition write_extents :: "Extent \<Rightarrow> Extent list \<Rightarrow> Extent list" where
  "write_extents ext exts = snd (write_run ext exts (length exts)) @ [ext]"

section \<open>Remapping\<close>

definition remap_list :: "(string \<times> int, Extent) gomap \<Rightarrow> Extent list \<Rightarrow> Extent list" where
  "remap_list remap exts =
     map (\<lambda>e. case map_of remap (ChunkID e, ChunkOffset e) of Some e' \<Rightarrow> e' | None \<Rightarrow> e) exts"

section \<open>The meaning of an extent list\<close>

definition covers :: "Extent \<Rightarrow> int \<Rightarrow> bool" where
  "covers e i \<longleftrightarrow> FileOffset e \<le> i \<and> i < FileOffset e + Length e"

definition ext_loc :: "Extent \<Rightarrow> int \<Rightarrow> string \<times> int" where
  "ext_loc e i = (ChunkID e, ChunkOffset e + (i - FileOffset e))"

fun loc :: "Extent list \<Rightarrow> int \<Rightarrow> (string \<times> int) option" where
  "loc [] i = None"
| "loc (e # es) i =
     (case loc es i of Some l \<Rightarrow> Some l | None \<Rightarrow> if covers e i then Some (ext_loc e i) else None)"

definition ext_ok :: "Extent \<Rightarrow> bool" where
  "ext_ok e \<longleftrightarrow> 0 \<le> FileOffset e \<and> 0 \<le> Length e \<and> FileOffset e + Length e < 2 ^ 63
     \<and> 0 \<le> ChunkOffset e \<and> ChunkOffset e + Length e < 2 ^ 63"

definition exts_ok :: "int \<Rightarrow> Extent list \<Rightarrow> bool" where
  "exts_ok sz exts \<longleftrightarrow> (\<forall>e \<in> set exts. ext_ok e \<and> FileOffset e + Length e \<le> sz)"

definition overlap :: "Extent \<Rightarrow> Extent \<Rightarrow> bool" where
  "overlap a b \<longleftrightarrow> \<not> (FileOffset a + Length a \<le> FileOffset b \<or> FileOffset b + Length b \<le> FileOffset a)"

definition disjoint_exts :: "Extent list \<Rightarrow> bool" where
  "disjoint_exts exts \<longleftrightarrow> sorted_wrt (\<lambda>a b. \<not> overlap a b) exts"

text \<open>No extent before the last one is cut into a head and a tail by the write.\<close>

definition split_safe :: "Extent \<Rightarrow> Extent list \<Rightarrow> bool" where
  "split_safe ext exts \<longleftrightarrow> (\<forall>e \<in> set (butlast exts). length (write_pieces ext e) \<le> 1)"

lemma loc_append:
  "loc (xs @ ys) i = (case loc ys i of Some l \<Rightarrow> Some l | None \<Rightarrow> loc xs i)"
  by (induction xs) (auto split: option.splits)

lemma loc_None_iff: "loc es i = None \<longleftrightarrow> (\<forall>e \<in> set es. \<not> covers e i)"
  by (induction es) (auto split: option.splits)

lemma loc_SomeE:
  assumes "loc es i = Some l"
  obtains e where "e \<in> set es" and "covers e i" and "l = ext_loc e i"
  using assms by (induction es) (auto split: option.splits if_splits)

section \<open>Truncation restricts the meaning\<close>

lemma trim_loop_loc:
  assumes "\<forall>e \<in> set exts. ext_ok e" and "0 \<le> n" and "n < 2 ^ 63"
  shows "loc (trim_loop n exts) i = (if i < n then loc exts i else None)"
  using assms
proof (induction exts)
  case Nil
  then show ?case by simp
next
  case (Cons e es)
  then have ok: "ext_ok e" by simp
  have e: "i64 (FileOffset e + Length e) = FileOffset e + Length e"
    using ok by (simp add: ext_ok_def i64_simps)
  show ?case
  proof (cases "FileOffset e < n")
    case True
    with ok Cons.prems have "i64 (n - FileOffset e) = n - FileOffset e"
      by (simp add: ext_ok_def i64_simps)
    with True e Cons show ?thesis
      by (auto simp: covers_def ext_loc_def split: option.splits)
  next
    case False
    with Cons show ?thesis by (auto simp: covers_def split: option.splits)
  qed
qed

lemma trim_loop_ok:
  assumes "exts_ok sz exts" and "0 \<le> n" and "n < 2 ^ 63"
  shows "exts_ok n (trim_loop n exts)"
  using assms
proof (induction exts)
  case Nil
  then show ?case by (simp add: exts_ok_def)
next
  case (Cons e es)
  then have "ext_ok e" and IH: "exts_ok n (trim_loop n es)" by (auto simp: exts_ok_def)
  then have i: "i64 (FileOffset e + Length e) = FileOffset e + Length e"
    and "FileOffset e < n \<Longrightarrow> i64 (n - FileOffset e) = n - FileOffset e"
    using Cons.prems by (simp_all add: ext_ok_def i64_simps)
  with \<open>ext_ok e\<close> IH show ?case by (auto simp: exts_ok_def ext_ok_def)
qed

section \<open>The write loop, when no unread slot is overwritten\<close>

lemma foldl_push:
  "foldl push (arr, s) xs =
     (fold (\<lambda>k a. a[length s + k := xs ! k]) [0..<length xs] arr, s @ xs)"
proof (induction xs rule: rev_induct)
  case Nil
  then show ?case by simp
next
  case (snoc x xs)
  have "fold (\<lambda>k a. a[length s + k := (xs @ [x]) ! k]) [0..<length xs] arr =
        fold (\<lambda>k a. a[length s + k := xs ! k]) [0..<length xs] arr"
    by (rule fold_cong) (auto simp: nth_append)
  with snoc show ?case by simp
qed

lemma push_one: "foldl push (arr, s) [x] = (arr[length s := x], s @ [x])"
  by simp

lemma snd_foldl_push: "snd (foldl push st xs) = snd st @ xs"
  by (cases st) (simp add: foldl_push)

lemma write_run_Suc: "write_run ext exts (Suc n) = write_step ext (write_run ext exts n) n"
  by (simp add: write_run_def)

lemma write_run_0 [simp]: "write_run ext exts 0 = (exts, [])"
  by (simp add: write_run_def)

text \<open>
  As long as every extent read so far left at most one piece, the loop has
  appended no more than it has read, and the unread part of the array is intact.
\<close>

lemma write_run_safe:
  assumes "\<forall>j < n. length (write_pieces ext (exts ! j)) \<le> 1" and "n \<le> length exts"
  shows "snd (write_run ext exts n) = concat (map (write_pieces ext) (take n exts))
    \<and> length (snd (write_run ext exts n)) \<le> n
    \<and> length (fst (write_run ext exts n)) = length exts
    \<and> drop n (fst (write_run ext exts n)) = drop n exts"
  using assms
proof (induction n)
  case 0
  then show ?case by simp
next
  case (Suc n)
  obtain arr s where r: "write_run ext exts n = (arr, s)" by force
  with Suc have s: "s = concat (map (write_pieces ext) (take n exts))" and ls: "length s \<le> n"
    and la: "length arr = length exts" and d: "drop n arr = drop n exts" by auto
  have "drop n arr ! 0 = drop n exts ! 0" and "drop 1 (drop n arr) = drop 1 (drop n exts)"
    using d by simp_all
  then have rd: "arr ! n = exts ! n" and dd: "drop (Suc n) arr = drop (Suc n) exts"
    using Suc.prems(2) la by simp_all
  have p: "length (write_pieces ext (exts ! n)) \<le> 1" using Suc.prems by simp
  have step: "write_run ext exts (Suc n) = foldl push (arr, s) (write_pieces ext (exts ! n))"
    by (simp add: write_run_Suc r write_step_def rd)
  have tk: "take (Suc n) exts = take n exts @ [exts ! n]"
    using Suc.prems(2) by (simp add: take_Suc_conv_app_nth)
  from p consider "write_pieces ext (exts ! n) = []" | x where "write_pieces ext (exts ! n) = [x]"
    by (cases "write_pieces ext (exts ! n)") auto
  then show ?case
  proof cases
    case 1
    then show ?thesis using step s ls la dd tk by simp
  next
    case 2
    then show ?thesis using step s ls la dd tk by simp
  qed
qed

lemma split_safe_snoc:
  "split_safe ext (xs @ [x]) \<longleftrightarrow> (\<forall>e \<in> set xs. length (write_pieces ext e) \<le> 1)"
  by (simp add: split_safe_def)

theorem write_loop_safe:
  assumes "split_safe ext exts"
  shows "write_extents ext exts = concat (map (write_pieces ext) exts) @ [ext]"
proof (cases exts rule: rev_cases)
  case Nil
  then show ?thesis by (simp add: write_extents_def)
next
  case (snoc xs x)
  let ?r = "write_run ext exts (length xs)"
  have "\<forall>j < length xs. length (write_pieces ext (exts ! j)) \<le> 1"
    using assms snoc by (simp add: split_safe_snoc nth_append)
  from write_run_safe [OF this] snoc
  have s: "snd ?r = concat (map (write_pieces ext) xs)" and l: "length (fst ?r) = Suc (length xs)"
    and d: "drop (length xs) (fst ?r) = [x]" by simp_all
  from d have "drop (length xs) (fst ?r) ! 0 = x" by simp
  with l have "fst ?r ! length xs = x" by simp
  then have "snd (write_run ext exts (Suc (length xs))) = snd ?r @ write_pieces ext x"
    by (simp add: write_run_Suc write_step_def snd_foldl_push)
  with s snoc show ?thesis by (simp add: write_extents_def)
qed

section \<open>A write overrides the meaning\<close>

definition head_piece :: "Extent \<Rightarrow> Extent \<Rightarrow> Extent" where
  "head_piece ext e = e\<lparr>Length := FileOffset ext - FileOffset e\<rparr>"

definition tail_piece :: "Extent \<Rightarrow> Extent \<Rightarrow> Extent" where
  "tail_piece ext e =
     (let end = FileOffset ext + Length ext
      in e\<lparr>ChunkOffset := ChunkOffset e + (end - FileOffset e),
           Length := FileOffset e + Length e - end, FileOffset := end\<rparr>)"

lemmas piece_defs = head_piece_def tail_piece_def Let_def

lemma write_pieces_eq:
  assumes "ext_ok ext" and "ext_ok e"
  shows "write_pieces ext e =
    (if \<not> overlap e ext then [e]
     else (if FileOffset e < FileOffset ext then [head_piece ext e] else [])
        @ (if FileOffset ext + Length ext < FileOffset e + Length e then [tail_piece ext e] else []))"
proof -
  from assms have "i64 (FileOffset ext + Length ext) = FileOffset ext + Length ext"
    and "i64 (FileOffset e + Length e) = FileOffset e + Length e"
    by (simp_all add: ext_ok_def i64_simps)
  moreover have "i64 (FileOffset ext - FileOffset e) = FileOffset ext - FileOffset e"
    if "FileOffset e < FileOffset ext"
    using that assms by (simp add: ext_ok_def i64_simps)
  moreover have "i64 (FileOffset ext + Length ext - FileOffset e) = FileOffset ext + Length ext - FileOffset e"
    and "i64 (ChunkOffset e + (FileOffset ext + Length ext - FileOffset e))
      = ChunkOffset e + (FileOffset ext + Length ext - FileOffset e)"
    and "i64 (FileOffset e + Length e - (FileOffset ext + Length ext))
      = FileOffset e + Length e - (FileOffset ext + Length ext)"
    if "overlap e ext" and "FileOffset ext + Length ext < FileOffset e + Length e"
    using that assms by (auto simp: ext_ok_def overlap_def i64_simps)
  ultimately show ?thesis
    by (auto simp: write_pieces_def overlap_def piece_defs)
qed

lemma write_pieces_ok:
  assumes "ext_ok ext" and "ext_ok e" and "x \<in> set (write_pieces ext e)"
  shows "ext_ok x" and "FileOffset x + Length x \<le> FileOffset e + Length e"
    and "FileOffset e \<le> FileOffset x" and "ChunkID x = ChunkID e"
    and "ChunkOffset x - FileOffset x = ChunkOffset e - FileOffset e"
  using assms by (auto simp: write_pieces_eq ext_ok_def overlap_def piece_defs split: if_splits)

lemma loc_write_pieces:
  assumes "ext_ok ext" and "ext_ok e" and "\<not> covers ext i"
  shows "loc (write_pieces ext e) i = loc [e] i"
  using assms
  by (auto simp: write_pieces_eq overlap_def covers_def ext_loc_def ext_ok_def piece_defs)

lemma loc_concat_pieces:
  assumes "ext_ok ext" and "\<forall>e \<in> set exts. ext_ok e" and "\<not> covers ext i"
  shows "loc (concat (map (write_pieces ext) exts)) i = loc exts i"
  using assms(2)
proof (induction exts)
  case Nil
  then show ?case by simp
next
  case (Cons e es)
  then have "loc (write_pieces ext e) i = loc [e] i"
    using assms by (intro loc_write_pieces) simp_all
  with Cons show ?case by (simp add: loc_append split: option.splits)
qed

theorem write_extents_loc:
  assumes "ext_ok ext" and "\<forall>e \<in> set exts. ext_ok e" and "split_safe ext exts"
  shows "loc (write_extents ext exts) i =
    (if covers ext i then Some (ext_loc ext i) else loc exts i)"
  using assms loc_concat_pieces [OF assms(1,2)]
  by (simp add: write_loop_safe loc_append)

section \<open>Well-formedness is kept by every write\<close>

text \<open>
  This needs no assumption on splitting: whatever the loop reads is an extent of
  the file or a piece of one.
\<close>

lemma foldl_push_set:
  "set (fst (foldl push st xs)) \<subseteq> set (fst st) \<union> set xs"
proof (induction xs arbitrary: st)
  case Nil
  then show ?case by simp
next
  case (Cons x xs)
  obtain arr s where st: "st = (arr, s)" by force
  have "set (fst (push st x)) \<subseteq> insert x (set (fst st))"
    by (simp add: st set_update_subset_insert)
  with Cons [of "push st x"] show ?case by auto
qed

lemma length_foldl_push [simp]: "length (fst (foldl push st xs)) = length (fst st)"
proof (induction xs arbitrary: st)
  case Nil
  then show ?case by simp
next
  case (Cons x xs)
  then show ?case by (cases st) simp
qed

lemma write_run_ok:
  assumes "ext_ok ext" and "exts_ok sz exts" and "n \<le> length exts"
  shows "exts_ok sz (fst (write_run ext exts n)) \<and> exts_ok sz (snd (write_run ext exts n))
    \<and> length (fst (write_run ext exts n)) = length exts"
  using assms(3)
proof (induction n)
  case 0
  then show ?case using assms by (simp add: exts_ok_def)
next
  case (Suc n)
  let ?r = "write_run ext exts n"
  from Suc have a: "exts_ok sz (fst ?r)" and s: "exts_ok sz (snd ?r)"
    and l: "length (fst ?r) = length exts" by auto
  with Suc.prems have "fst ?r ! n \<in> set (fst ?r)" by simp
  with a have e: "ext_ok (fst ?r ! n)" "FileOffset (fst ?r ! n) + Length (fst ?r ! n) \<le> sz"
    by (auto simp: exts_ok_def)
  then have p: "exts_ok sz (write_pieces ext (fst ?r ! n))"
    using write_pieces_ok [OF assms(1) e(1)] by (force simp: exts_ok_def)
  have "set (fst (write_run ext exts (Suc n))) \<subseteq> set (fst ?r) \<union> set (write_pieces ext (fst ?r ! n))"
    unfolding write_run_Suc write_step_def by (rule foldl_push_set)
  with a p have "exts_ok sz (fst (write_run ext exts (Suc n)))" by (auto simp: exts_ok_def)
  moreover from s p have "exts_ok sz (snd (write_run ext exts (Suc n)))"
    by (auto simp: write_run_Suc write_step_def snd_foldl_push exts_ok_def)
  ultimately show ?case using l by (simp add: write_run_Suc write_step_def)
qed

lemma write_extents_ok:
  assumes "ext_ok ext" and "exts_ok sz exts"
  shows "exts_ok (max sz (FileOffset ext + Length ext)) (write_extents ext exts)"
  using write_run_ok [OF assms, of "length exts"] assms(1)
  by (auto simp: write_extents_def exts_ok_def)

section \<open>Disjointness\<close>

lemma overlap_sym: "overlap a b \<longleftrightarrow> overlap b a"
  by (auto simp: overlap_def)

lemma write_pieces_disjoint:
  assumes "ext_ok ext" and "ext_ok e"
  shows "disjoint_exts (write_pieces ext e)" and "x \<in> set (write_pieces ext e) \<Longrightarrow> \<not> overlap x ext"
  using assms
  by (auto simp: write_pieces_eq disjoint_exts_def overlap_def ext_ok_def piece_defs split: if_splits)

lemma write_pieces_sub:
  assumes "ext_ok ext" and "ext_ok a" and "ext_ok b" and "\<not> overlap a b"
    and "x \<in> set (write_pieces ext a)" and "y \<in> set (write_pieces ext b)"
  shows "\<not> overlap x y"
  using assms write_pieces_ok [OF assms(1,2,5)] write_pieces_ok [OF assms(1,3,6)]
  by (auto simp: overlap_def)

lemma concat_pieces_disjoint:
  assumes "ext_ok ext" and "\<forall>e \<in> set exts. ext_ok e" and "disjoint_exts exts"
  shows "disjoint_exts (concat (map (write_pieces ext) exts))"
  using assms(2,3)
proof (induction exts)
  case Nil
  then show ?case by (simp add: disjoint_exts_def)
next
  case (Cons e es)
  then have IH: "disjoint_exts (concat (map (write_pieces ext) es))"
    by (simp add: disjoint_exts_def)
  from Cons.prems have e: "ext_ok e" and es: "\<And>f. f \<in> set es \<Longrightarrow> ext_ok f \<and> \<not> overlap e f"
    by (simp_all add: disjoint_exts_def)
  have "\<forall>x \<in> set (write_pieces ext e). \<forall>y \<in> set (concat (map (write_pieces ext) es)). \<not> overlap x y"
    using es write_pieces_sub [OF assms(1) e] by fastforce
  with IH write_pieces_disjoint(1) [OF assms(1) e] show ?case
    by (simp add: disjoint_exts_def sorted_wrt_append)
qed

theorem write_extents_disjoint:
  assumes "ext_ok ext" and "\<forall>e \<in> set exts. ext_ok e" and "disjoint_exts exts"
    and "split_safe ext exts"
  shows "disjoint_exts (write_extents ext exts)"
proof -
  have "\<forall>x \<in> set (concat (map (write_pieces ext) exts)). \<not> overlap x ext"
    using write_pieces_disjoint(2) [OF assms(1)] assms(2) by auto
  with concat_pieces_disjoint [OF assms(1,2,3)] show ?thesis
    by (simp add: write_loop_safe [OF assms(4)] disjoint_exts_def sorted_wrt_append)
qed

section \<open>A write that splits an extent with others behind it\<close>

text \<open>
  The tail of the split extent lands in the next, still unread slot. The loop
  then reads the tail instead of the extent that was there, finds that it does
  not overlap the write, and appends it one slot further on, until the end.
\<close>

lemma write_run_unchanged:
  assumes "\<forall>j < n. write_pieces ext (exts ! j) = [exts ! j]" and "n \<le> length exts"
  shows "write_run ext exts n = (exts, take n exts)"
  using assms
proof (induction n)
  case 0
  then show ?case by simp
next
  case (Suc n)
  then show ?case by (simp add: write_run_Suc write_step_def take_Suc_conv_app_nth min_def)
qed

lemma write_run_smear:
  assumes "\<forall>j < i. write_pieces ext (exts ! j) = [exts ! j]"
    and "write_pieces ext (exts ! i) = [h, t]" and "write_pieces ext t = [t]"
    and "i + Suc k \<le> length exts"
  shows "snd (write_run ext exts (i + Suc k)) = take i exts @ [h] @ replicate (Suc k) t
    \<and> length (fst (write_run ext exts (i + Suc k))) = length exts
    \<and> (i + Suc k < length exts \<longrightarrow> fst (write_run ext exts (i + Suc k)) ! (i + Suc k) = t)"
  using assms(4)
proof (induction k)
  case 0
  then have "write_run ext exts i = (exts, take i exts)"
    using assms(1) by (intro write_run_unchanged) simp_all
  with 0 assms(2) show ?case by (simp add: write_run_Suc write_step_def min_def)
next
  case (Suc k)
  obtain arr s where r: "write_run ext exts (i + Suc k) = (arr, s)" by force
  with Suc have s: "s = take i exts @ [h] @ replicate (Suc k) t" and "length arr = length exts"
    and "arr ! (i + Suc k) = t" by auto
  moreover from this Suc.prems have "length s = i + Suc (Suc k)" by (simp add: min_def)
  moreover have "write_run ext exts (i + Suc (Suc k)) = write_step ext (arr, s) (i + Suc k)"
    using r by (simp add: write_run_Suc)
  ultimately show ?case
    using assms(3) by (simp add: write_step_def replicate_append_same [symmetric])
qed

theorem write_extents_split:
  assumes "Suc i < length exts" and "\<forall>j < i. write_pieces ext (exts ! j) = [exts ! j]"
    and "write_pieces ext (exts ! i) = [h, t]" and "write_pieces ext t = [t]"
  shows "write_extents ext exts = take i exts @ [h] @ replicate (length exts - i) t @ [ext]"
proof -
  define k where "k = length exts - Suc i"
  then have "length exts = i + Suc k" using assms(1) by simp
  with write_run_smear [OF assms(2-4), of k] show ?thesis by (simp add: write_extents_def)
qed

text \<open>The bytes of every extent behind the split one are no longer in the file.\<close>

lemma disjoint_nth: "disjoint_exts es \<Longrightarrow> i < length es \<Longrightarrow> j < length es \<Longrightarrow> i \<noteq> j \<Longrightarrow>
    \<not> overlap (es ! i) (es ! j)"
  using overlap_sym by (metis disjoint_exts_def linorder_neqE_nat sorted_wrt_nth_less)

lemma disjoint_covers: "\<not> overlap a b \<Longrightarrow> covers b x \<Longrightarrow> \<not> covers a x"
  by (auto simp: overlap_def covers_def)

theorem write_extents_split_loses:
  assumes ok: "ext_ok ext" "\<forall>e \<in> set exts. ext_ok e" and dis: "disjoint_exts exts"
    and i: "i < j" "j < length exts"
    and inside: "FileOffset (exts ! i) < FileOffset ext" "0 < Length ext"
      "FileOffset ext + Length ext < FileOffset (exts ! i) + Length (exts ! i)"
    and b: "covers (exts ! j) b"
  shows "loc (write_extents ext exts) b = None"
proof -
  let ?e = "exts ! i" let ?h = "head_piece ext ?e" let ?t = "tail_piece ext ?e"
  have e: "ext_ok ?e" using ok(2) i by simp
  have keep: "write_pieces ext (exts ! k) = [exts ! k]" if "k < i" for k
  proof -
    have "\<not> overlap (exts ! k) ?e" using that i by (intro disjoint_nth [OF dis]) simp_all
    then have "\<not> overlap (exts ! k) ext" using inside by (auto simp: overlap_def)
    then show ?thesis using ok i that by (simp add: write_pieces_eq)
  qed
  have sp: "write_pieces ext ?e = [?h, ?t]"
    using ok e inside by (simp add: write_pieces_eq overlap_def)
  then have t: "ext_ok ?t" using write_pieces_ok(1) [OF ok(1) e] by simp
  have "write_pieces ext ?t = [?t]"
    using write_pieces_eq [OF ok(1) t] by (simp add: overlap_def piece_defs)
  with keep sp i have w: "write_extents ext exts = take i exts @ [?h] @ replicate (length exts - i) ?t @ [ext]"
    by (intro write_extents_split) simp_all
  have ne: "\<not> covers ?e b" using i b by (intro disjoint_covers [OF disjoint_nth [OF dis]]) simp_all
  then have "\<not> covers ?h b" "\<not> covers ?t b" "\<not> covers ext b"
    using inside by (auto simp: covers_def piece_defs)
  moreover have "\<not> covers e' b" if e': "e' \<in> set (take i exts)" for e'
  proof -
    obtain k where "k < i" and "e' = exts ! k" using e' by (auto simp: in_set_conv_nth)
    then have "\<not> overlap e' (exts ! j)" using i disjoint_nth [OF dis, of k j] by simp
    with b show ?thesis by (rule disjoint_covers [rotated])
  qed
  ultimately show ?thesis by (auto simp: w loc_None_iff)
qed

end
