(* ===== verification/Index_Ops.thy ===== *)
theory Index_Ops
  imports Extents
begin

text \<open>
  The in-memory index of \<^verbatim>\<open>internal/index/index.go\<close>: its state as a record, one
  definition per method. Every public method holds the index lock for its whole
  body, so each is one atomic function of the state. Methods that can fail
  return \<open>ierror + index\<close>; in the source every error return precedes the first
  mutation, so an error leaves the index unchanged. \<open>IndexPanic\<close> marks the two
  run-time panics the code can reach: a nil inode pointer and an assignment to a
  nil map.

  The inodes are heap objects in Go and are mutated through pointers. They are
  shared only with the map that holds them, so the model updates the map entry;
  a pointer whose entry has been deleted is unreachable, and \<open>modify_inode\<close> on a
  missing key does nothing.
\<close>

section \<open>State\<close>

definition RootIno :: ino where "RootIno = 1"

record index =
  inodes :: "(ino, Inode) gomap"
  dirIndex :: "(ino, (string, ino) gomap) gomap"
  extents :: "(ino, Extent list) gomap"
  symlinks :: "(ino, string) gomap"
  xattrs :: "(ino, (string, string) gomap) gomap"
  nextIno :: u64
  blockSize :: int
  dirty :: bool
  remoteDirty :: bool

datatype ierror =
    InodeNotFound ino
  | NotADirectory ino
  | ParentNotFound ino
  | ChildNotFound ino
  | EntryExists string ino
  | EntryNotFound string ino
  | DirNotEmpty ino
  | SourceNotFound string ino
  | DestDirNotEmpty ino
  | NotRegular ino
  | NotSymlink ino
  | XattrNotFound string ino
  | IndexPanic

subsection \<open>Access to the maps\<close>

definition put_inode :: "ino \<Rightarrow> Inode \<Rightarrow> index \<Rightarrow> index" where
  "put_inode i n idx = idx\<lparr>inodes := AList.update i n (inodes idx)\<rparr>"

definition modify_inode :: "ino \<Rightarrow> (Inode \<Rightarrow> Inode) \<Rightarrow> index \<Rightarrow> index" where
  "modify_inode i f idx =
     (case map_of (inodes idx) i of None \<Rightarrow> idx | Some n \<Rightarrow> put_inode i (f n) idx)"

definition children :: "index \<Rightarrow> ino \<Rightarrow> (string, ino) gomap" where
  "children idx p = (case map_of (dirIndex idx) p of None \<Rightarrow> [] | Some cs \<Rightarrow> cs)"

definition set_children :: "ino \<Rightarrow> (string, ino) gomap \<Rightarrow> index \<Rightarrow> index" where
  "set_children p cs idx = idx\<lparr>dirIndex := AList.update p cs (dirIndex idx)\<rparr>"

definition file_extents :: "index \<Rightarrow> ino \<Rightarrow> Extent list" where
  "file_extents idx i = (case map_of (extents idx) i of None \<Rightarrow> [] | Some es \<Rightarrow> es)"

definition drop_inode :: "ino \<Rightarrow> index \<Rightarrow> index" where
  "drop_inode i idx = idx\<lparr>inodes := AList.delete i (inodes idx),
     extents := AList.delete i (extents idx), symlinks := AList.delete i (symlinks idx),
     xattrs := AList.delete i (xattrs idx), dirIndex := AList.delete i (dirIndex idx)\<rparr>"

definition mark_dirty :: "index \<Rightarrow> index" where
  "mark_dirty idx = idx\<lparr>dirty := True, remoteDirty := True\<rparr>"

definition touch_mc :: "int \<Rightarrow> Inode \<Rightarrow> Inode" where
  "touch_mc now n = n\<lparr>Mtime := now, Ctime := now\<rparr>"

section \<open>Construction and snapshots\<close>

definition zero_inode :: Inode where
  "zero_inode = \<lparr>Ino = 0, FileType = 0, Mode = 0, Nlink = 0, UID = 0, GID = 0, Size = 0,
     Atime = 0, Mtime = 0, Ctime = 0, Blksize = 0, Blocks = 0, Rdev = 0\<rparr>"

definition New_index :: "int \<Rightarrow> int \<Rightarrow> index" where
  "New_index blksz now =
     (let root = zero_inode\<lparr>Ino := RootIno, FileType := Directory, Mode := 0x1ED, Nlink := 1,
                   Blksize := blksz, Atime := now, Mtime := now, Ctime := now\<rparr>
      in \<lparr>inodes = [(RootIno, root)], dirIndex = [(RootIno, [])], extents = [], symlinks = [],
          xattrs = [], nextIno = RootIno + 1, blockSize = blksz, dirty = False, remoteDirty = False\<rparr>)"

definition or_empty :: "('k, 'v) gomap option \<Rightarrow> ('k, 'v) gomap" where
  "or_empty m = (case m of None \<Rightarrow> [] | Some x \<Rightarrow> x)"

definition add_entry :: "(ino, (string, ino) gomap) gomap \<Rightarrow> DirEntry \<Rightarrow> (ino, (string, ino) gomap) gomap" where
  "add_entry d e =
     (let cs = (case map_of d (ParentIno e) of None \<Rightarrow> [] | Some cs \<Rightarrow> cs)
      in AList.update (ParentIno e) (AList.update (Name e) (ChildIno e) cs) d)"

definition ensure_dir :: "(ino, (string, ino) gomap) gomap \<Rightarrow> ino \<times> Inode \<Rightarrow> (ino, (string, ino) gomap) gomap" where
  "ensure_dir d p =
     (if FileType (snd p) = Directory \<and> map_of d (fst p) = None
      then AList.update (fst p) [] d else d)"

definition FromSnapshot :: "Snapshot \<Rightarrow> int \<Rightarrow> index" where
  "FromSnapshot snap blksz =
     (let ins = or_empty (Inodes snap);
          d1 = foldl add_entry [] (DirEntries snap);
          d2 = foldl ensure_dir d1 ins
      in \<lparr>inodes = ins, dirIndex = d2, extents = or_empty (ExtentMap snap),
          symlinks = or_empty (SymlinkTargets snap), xattrs = or_empty (Xattrs snap),
          nextIno = NextIno snap, blockSize = blksz, dirty = False, remoteDirty = False\<rparr>)"

definition dir_entries :: "ino \<times> (string, ino) gomap \<Rightarrow> DirEntry list" where
  "dir_entries p = map (\<lambda>(nm, c). \<lparr>ParentIno = fst p, Name = nm, ChildIno = c\<rparr>) (snd p)"

definition Snapshot_of :: "index \<Rightarrow> Snapshot" where
  "Snapshot_of idx =
     \<lparr>Inodes = Some (inodes idx), DirEntries = concat (map dir_entries (dirIndex idx)),
      ExtentMap = Some (extents idx), SymlinkTargets = Some (symlinks idx),
      Xattrs = Some (xattrs idx), NextIno = nextIno idx\<rparr>"

section \<open>Flags and reads\<close>

definition IsDirty :: "index \<Rightarrow> bool" where "IsDirty idx = dirty idx"
definition MarkClean :: "index \<Rightarrow> index" where "MarkClean idx = idx\<lparr>dirty := False\<rparr>"
definition IsRemoteDirty :: "index \<Rightarrow> bool" where "IsRemoteDirty idx = remoteDirty idx"
definition MarkRemoteClean :: "index \<Rightarrow> index" where
  "MarkRemoteClean idx = idx\<lparr>remoteDirty := False\<rparr>"

definition GetInode :: "index \<Rightarrow> ino \<Rightarrow> Inode option" where
  "GetInode idx i = map_of (inodes idx) i"

definition Lookup :: "index \<Rightarrow> ino \<Rightarrow> string \<Rightarrow> ino option" where
  "Lookup idx p nm =
     (case map_of (dirIndex idx) p of None \<Rightarrow> None | Some cs \<Rightarrow> map_of cs nm)"

definition Readdir :: "index \<Rightarrow> ino \<Rightarrow> ierror + DirEntry list" where
  "Readdir idx i =
     (case map_of (inodes idx) i of
        None \<Rightarrow> Inl (InodeNotFound i)
      | Some n \<Rightarrow> if FileType n \<noteq> Directory then Inl (NotADirectory i)
                  else Inr (dir_entries (i, children idx i)))"

definition GetExtents :: "index \<Rightarrow> ino \<Rightarrow> Extent list option" where
  "GetExtents idx i = map_of (extents idx) i"

definition GetSymlink :: "index \<Rightarrow> ino \<Rightarrow> string option" where
  "GetSymlink idx i = map_of (symlinks idx) i"

definition GetXattrs :: "index \<Rightarrow> ino \<Rightarrow> (string, string) gomap" where
  "GetXattrs idx i = (case map_of (xattrs idx) i of None \<Rightarrow> [] | Some a \<Rightarrow> a)"

section \<open>Creating, linking, unlinking\<close>

definition fresh_inode :: "index \<Rightarrow> u32 \<Rightarrow> u32 \<Rightarrow> u32 \<Rightarrow> u32 \<Rightarrow> u32 \<Rightarrow> int \<Rightarrow> Inode" where
  "fresh_inode idx fileType mode uid gid rdev now =
     zero_inode\<lparr>Ino := nextIno idx, FileType := fileType, Mode := mode,
       Nlink := (if fileType = Directory then 1 else 0), UID := uid, GID := gid,
       Blksize := blockSize idx, Atime := now, Mtime := now, Ctime := now, Rdev := rdev\<rparr>"

definition CreateInode ::
  "index \<Rightarrow> u32 \<Rightarrow> u32 \<Rightarrow> u32 \<Rightarrow> u32 \<Rightarrow> u32 \<Rightarrow> int \<Rightarrow> ino \<times> index" where
  "CreateInode idx fileType mode uid gid rdev now =
     (let i = nextIno idx;
          n = fresh_inode idx fileType mode uid gid rdev now;
          idx1 = put_inode i n (idx\<lparr>nextIno := nextIno idx + 1\<rparr>);
          idx2 = (if fileType = Regular
                  then idx1\<lparr>extents := AList.update i [] (extents idx1)\<rparr> else idx1);
          idx3 = (if fileType = Directory then set_children i [] idx2 else idx2)
      in (i, mark_dirty idx3))"

definition AddDirEntry :: "index \<Rightarrow> ino \<Rightarrow> string \<Rightarrow> ino \<Rightarrow> int \<Rightarrow> ierror + index" where
  "AddDirEntry idx parentIno nm childIno now =
     (case map_of (inodes idx) parentIno of
        None \<Rightarrow> Inl (ParentNotFound parentIno)
      | Some parent \<Rightarrow>
          if FileType parent \<noteq> Directory then Inl (NotADirectory parentIno)
          else (case map_of (inodes idx) childIno of
              None \<Rightarrow> Inl (ChildNotFound childIno)
            | Some child \<Rightarrow>
                if Lookup idx parentIno nm \<noteq> None then Inl (EntryExists nm parentIno)
                else (case map_of (dirIndex idx) parentIno of
                    None \<Rightarrow> Inl IndexPanic
                  | Some cs \<Rightarrow>
                      Inr (mark_dirty
                        (modify_inode parentIno (touch_mc now)
                          (modify_inode childIno (\<lambda>c. c\<lparr>Nlink := Nlink c + 1, Ctime := now\<rparr>)
                            (set_children parentIno (AList.update nm childIno cs) idx)))))))"

definition free_threshold :: "Inode \<Rightarrow> u32" where
  "free_threshold n = (if FileType n = Directory then 1 else 0)"

definition RemoveDirEntry :: "index \<Rightarrow> ino \<Rightarrow> string \<Rightarrow> int \<Rightarrow> ierror + index" where
  "RemoveDirEntry idx parentIno nm now =
     (case map_of (inodes idx) parentIno of
        None \<Rightarrow> Inl (ParentNotFound parentIno)
      | Some parent \<Rightarrow>
          (case Lookup idx parentIno nm of
             None \<Rightarrow> Inl (EntryNotFound nm parentIno)
           | Some childIno \<Rightarrow>
               (case map_of (inodes idx) childIno of
                  None \<Rightarrow> Inl IndexPanic
                | Some child \<Rightarrow>
                    if FileType child = Directory \<and> children idx childIno \<noteq> []
                    then Inl (DirNotEmpty childIno)
                    else
                      let idx1 = set_children parentIno
                                   (AList.delete nm (children idx parentIno)) idx;
                          child1 = child\<lparr>Nlink := Nlink child - 1\<rparr>;
                          idx2 = (if Nlink child1 \<le> free_threshold child
                                  then drop_inode childIno idx1
                                  else put_inode childIno (child1\<lparr>Ctime := now\<rparr>) idx1)
                      in Inr (mark_dirty (modify_inode parentIno (touch_mc now) idx2)))))"

section \<open>Rename\<close>

text \<open>The block that removes an existing destination entry's inode reference.\<close>

definition rename_unlink_dst :: "index \<Rightarrow> ino \<Rightarrow> string \<Rightarrow> ierror + index" where
  "rename_unlink_dst idx dstParent dstName =
     (case Lookup idx dstParent dstName of
        None \<Rightarrow> Inr idx
      | Some dstChildIno \<Rightarrow>
          (case map_of (inodes idx) dstChildIno of
             None \<Rightarrow> Inl IndexPanic
           | Some dstChild \<Rightarrow>
               if FileType dstChild = Directory \<and> children idx dstChildIno \<noteq> []
               then Inl (DestDirNotEmpty dstChildIno)
               else
                 let dst1 = dstChild\<lparr>Nlink := Nlink dstChild - 1\<rparr>
                 in Inr (if Nlink dst1 \<le> free_threshold dstChild
                         then drop_inode dstChildIno idx else put_inode dstChildIno dst1 idx)))"

definition Rename :: "index \<Rightarrow> ino \<Rightarrow> string \<Rightarrow> ino \<Rightarrow> string \<Rightarrow> int \<Rightarrow> ierror + index" where
  "Rename idx srcParent srcName dstParent dstName now =
     (case Lookup idx srcParent srcName of
        None \<Rightarrow> Inl (SourceNotFound srcName srcParent)
      | Some srcChildIno \<Rightarrow>
          (case rename_unlink_dst idx dstParent dstName of
             Inl e \<Rightarrow> Inl e
           | Inr idx1 \<Rightarrow>
               let idx2 = (case map_of (dirIndex idx1) srcParent of
                             None \<Rightarrow> idx1
                           | Some cs \<Rightarrow> set_children srcParent (AList.delete srcName cs) idx1)
               in (case map_of (dirIndex idx2) dstParent of
                     None \<Rightarrow> Inl IndexPanic
                   | Some cs \<Rightarrow>
                       if map_of (inodes idx) srcChildIno = None then Inl IndexPanic
                       else
                         let idx3 = set_children dstParent (AList.update dstName srcChildIno cs) idx2;
                             idx4 = modify_inode srcChildIno (\<lambda>n. n\<lparr>Ctime := now\<rparr>) idx3;
                             idx5 = modify_inode srcParent (touch_mc now) idx4;
                             idx6 = (if dstParent \<noteq> srcParent
                                     then modify_inode dstParent (touch_mc now) idx5 else idx5)
                         in Inr (mark_dirty idx6))))"

section \<open>Attributes and data\<close>

definition trimExtents :: "ino \<Rightarrow> int \<Rightarrow> index \<Rightarrow> index" where
  "trimExtents i newSize idx =
     idx\<lparr>extents := AList.update i (trim_loop newSize (file_extents idx i)) (extents idx)\<rparr>"

definition opt_set :: "'a option \<Rightarrow> ('a \<Rightarrow> Inode \<Rightarrow> Inode) \<Rightarrow> Inode \<Rightarrow> Inode" where
  "opt_set x f n = (case x of None \<Rightarrow> n | Some v \<Rightarrow> f v n)"

definition SetAttr ::
  "index \<Rightarrow> ino \<Rightarrow> u32 option \<Rightarrow> u32 option \<Rightarrow> u32 option \<Rightarrow> int option \<Rightarrow> int option \<Rightarrow> int option
     \<Rightarrow> int \<Rightarrow> ierror + index" where
  "SetAttr idx i mode uid gid sz atime mtime now =
     (case map_of (inodes idx) i of
        None \<Rightarrow> Inl (InodeNotFound i)
      | Some n0 \<Rightarrow>
          let n1 = opt_set mode (\<lambda>v n. n\<lparr>Mode := v\<rparr>) n0;
              n2 = opt_set uid (\<lambda>v n. n\<lparr>UID := v\<rparr>) n1;
              n3 = opt_set gid (\<lambda>v n. n\<lparr>GID := v\<rparr>) n2;
              n4 = opt_set atime (\<lambda>v n. n\<lparr>Atime := v\<rparr>) n3;
              n5 = opt_set mtime (\<lambda>v n. n\<lparr>Mtime := v\<rparr>) n4;
              (n6, idx1) =
                (case sz of
                   None \<Rightarrow> (n5, idx)
                 | Some newSize \<Rightarrow>
                     if newSize = Size n5 then (n5, idx)
                     else (n5\<lparr>Size := newSize, Blocks := blocks512 newSize, Mtime := now\<rparr>,
                           if FileType n5 = Regular then trimExtents i newSize idx else idx))
          in Inr (mark_dirty (put_inode i (n6\<lparr>Ctime := now\<rparr>) idx1)))"

definition grow :: "int \<Rightarrow> Inode \<Rightarrow> Inode" where
  "grow newSize n =
     (if Size n < newSize then n\<lparr>Size := newSize, Blocks := blocks512 newSize\<rparr> else n)"

definition AppendExtent :: "index \<Rightarrow> ino \<Rightarrow> Extent \<Rightarrow> int \<Rightarrow> ierror + index" where
  "AppendExtent idx i ext now =
     (case map_of (inodes idx) i of
        None \<Rightarrow> Inl (InodeNotFound i)
      | Some n \<Rightarrow>
          if FileType n \<noteq> Regular then Inl (NotRegular i)
          else
            let idx1 = idx\<lparr>extents := AList.update i (file_extents idx i @ [ext]) (extents idx)\<rparr>;
                n1 = grow (i64 (FileOffset ext + Length ext)) n
            in Inr (mark_dirty (put_inode i (touch_mc now n1) idx1)))"

definition WriteExtent :: "index \<Rightarrow> ino \<Rightarrow> Extent \<Rightarrow> int \<Rightarrow> ierror + index" where
  "WriteExtent idx i ext now =
     (case map_of (inodes idx) i of
        None \<Rightarrow> Inl (InodeNotFound i)
      | Some n \<Rightarrow>
          if FileType n \<noteq> Regular then Inl (NotRegular i)
          else
            let idx1 = idx\<lparr>extents := AList.update i (write_extents ext (file_extents idx i)) (extents idx)\<rparr>;
                n1 = grow (i64 (FileOffset ext + Length ext)) n
            in Inr (mark_dirty (put_inode i (touch_mc now n1) idx1)))"

definition SetSymlink :: "index \<Rightarrow> ino \<Rightarrow> string \<Rightarrow> int \<Rightarrow> ierror + index" where
  "SetSymlink idx i target now =
     (case map_of (inodes idx) i of
        None \<Rightarrow> Inl (InodeNotFound i)
      | Some n \<Rightarrow>
          if FileType n \<noteq> Symlink then Inl (NotSymlink i)
          else Inr (mark_dirty (put_inode i (n\<lparr>Size := int (length target), Ctime := now\<rparr>)
                 (idx\<lparr>symlinks := AList.update i target (symlinks idx)\<rparr>))))"

definition SetXattr :: "index \<Rightarrow> ino \<Rightarrow> string \<Rightarrow> string \<Rightarrow> int \<Rightarrow> ierror + index" where
  "SetXattr idx i nm val now =
     (case map_of (inodes idx) i of
        None \<Rightarrow> Inl (InodeNotFound i)
      | Some n \<Rightarrow>
          Inr (mark_dirty (put_inode i (n\<lparr>Ctime := now\<rparr>)
            (idx\<lparr>xattrs := AList.update i (AList.update nm val (GetXattrs idx i)) (xattrs idx)\<rparr>))))"

definition RemoveXattr :: "index \<Rightarrow> ino \<Rightarrow> string \<Rightarrow> int \<Rightarrow> ierror + index" where
  "RemoveXattr idx i nm now =
     (case map_of (inodes idx) i of
        None \<Rightarrow> Inl (InodeNotFound i)
      | Some n \<Rightarrow>
          if map_of (GetXattrs idx i) nm = None then Inl (XattrNotFound nm i)
          else Inr (mark_dirty (put_inode i (n\<lparr>Ctime := now\<rparr>)
                 (idx\<lparr>xattrs := AList.update i (AList.delete nm (GetXattrs idx i)) (xattrs idx)\<rparr>))))"

definition TouchAtime :: "index \<Rightarrow> ino \<Rightarrow> int \<Rightarrow> index" where
  "TouchAtime idx i now =
     (case map_of (inodes idx) i of
        None \<Rightarrow> idx
      | Some n \<Rightarrow> (put_inode i (n\<lparr>Atime := now\<rparr>) idx)\<lparr>dirty := True\<rparr>)"

section \<open>Queries over the whole index\<close>

definition GetParentIno :: "index \<Rightarrow> ino \<Rightarrow> ino" where
  "GetParentIno idx i =
     (if i = RootIno then RootIno
      else (case find (\<lambda>(p, cs). i \<in> set (map snd cs)) (dirIndex idx) of
              Some (p, cs) \<Rightarrow> p | None \<Rightarrow> i))"

definition BlockSz :: "index \<Rightarrow> int" where "BlockSz idx = blockSize idx"

definition UsedBytes :: "index \<Rightarrow> int" where
  "UsedBytes idx =
     foldl (\<lambda>total (k, n). if FileType n = Regular then i64 (total + Size n) else total) 0 (inodes idx)"

definition LiveExtents :: "index \<Rightarrow> Extent list" where
  "LiveExtents idx = concat (map snd (extents idx))"

definition RemapExtents :: "(string \<times> int, Extent) gomap \<Rightarrow> index \<Rightarrow> index" where
  "RemapExtents remap idx =
     mark_dirty (idx\<lparr>extents := map (\<lambda>(i, es). (i, remap_list remap es)) (extents idx)\<rparr>)"

end
