(* ===== verification/Index_Inv.thy ===== *)
theory Index_Inv
  imports Index_Ops
begin

text \<open>
  The invariant of the index and its preservation by every operation. The
  conjuncts are those of \<^verbatim>\<open>specs/index.qnt\<close> that the code maintains:
  key consistency, the root, valid directory entries, link counts, fresh inode
  numbers, and extents that stay inside the file.
\<close>

named_theorems idx_simps

section \<open>The invariant\<close>

definition cnt :: "ino \<Rightarrow> (string, ino) gomap \<Rightarrow> nat" where
  "cnt i cs = asum (\<lambda>_ c. if c = i then 1 else 0) cs"

definition refs :: "(ino, (string, ino) gomap) gomap \<Rightarrow> ino \<Rightarrow> nat" where
  "refs ds i = asum (\<lambda>_ cs. cnt i cs) ds"

definition wf_keys :: "index \<Rightarrow> bool" where
  "wf_keys idx \<longleftrightarrow> keys_ok (inodes idx) \<and> keys_ok (dirIndex idx) \<and> keys_ok (extents idx)
     \<and> keys_ok (symlinks idx) \<and> keys_ok (xattrs idx)
     \<and> (\<forall>p cs. map_of (dirIndex idx) p = Some cs \<longrightarrow> keys_ok cs)"

definition wf_inodes :: "index \<Rightarrow> bool" where
  "wf_inodes idx \<longleftrightarrow> (\<forall>i n. map_of (inodes idx) i = Some n \<longrightarrow> Ino n = i \<and> i < nextIno idx)
     \<and> (\<exists>r. map_of (inodes idx) RootIno = Some r \<and> FileType r = Directory)"

definition is_dir :: "index \<Rightarrow> ino \<Rightarrow> bool" where
  "is_dir idx p \<longleftrightarrow> (\<exists>n. map_of (inodes idx) p = Some n \<and> FileType n = Directory)"

definition is_file :: "index \<Rightarrow> ino \<Rightarrow> bool" where
  "is_file idx p \<longleftrightarrow> (\<exists>n. map_of (inodes idx) p = Some n \<and> FileType n = Regular)"

definition wf_dirs :: "index \<Rightarrow> bool" where
  "wf_dirs idx \<longleftrightarrow> (\<forall>p. map_of (dirIndex idx) p \<noteq> None \<longleftrightarrow> is_dir idx p)
     \<and> (\<forall>p nm c. Lookup idx p nm = Some c \<longrightarrow> map_of (inodes idx) c \<noteq> None \<and> c \<noteq> RootIno)"

definition wf_nlink :: "index \<Rightarrow> bool" where
  "wf_nlink idx \<longleftrightarrow> (\<forall>i n. map_of (inodes idx) i = Some n \<longrightarrow>
     unat (Nlink n) = refs (dirIndex idx) i + (if FileType n = Directory then 1 else 0))"

definition wf_files :: "index \<Rightarrow> bool" where
  "wf_files idx \<longleftrightarrow> (\<forall>i. map_of (extents idx) i \<noteq> None \<longleftrightarrow> is_file idx i)
     \<and> (\<forall>i n. map_of (inodes idx) i = Some n \<longrightarrow> FileType n = Regular \<longrightarrow>
           0 \<le> Size n \<and> Size n < 2 ^ 63 \<and> exts_ok (Size n) (file_extents idx i))"

definition wf_side :: "index \<Rightarrow> bool" where
  "wf_side idx \<longleftrightarrow>
     (\<forall>i. map_of (symlinks idx) i \<noteq> None \<longrightarrow>
        (\<exists>n. map_of (inodes idx) i = Some n \<and> FileType n = Symlink))
     \<and> (\<forall>i. map_of (xattrs idx) i \<noteq> None \<longrightarrow> map_of (inodes idx) i \<noteq> None)"

definition index_inv :: "index \<Rightarrow> bool" where
  "index_inv idx \<longleftrightarrow> wf_keys idx \<and> wf_inodes idx \<and> wf_dirs idx \<and> wf_nlink idx
     \<and> wf_files idx \<and> wf_side idx"

lemmas wf_defs = wf_keys_def wf_inodes_def wf_dirs_def wf_nlink_def wf_files_def wf_side_def

section \<open>What the access functions do\<close>

lemma put_inode_sel [simp]:
  "inodes (put_inode i n idx) = AList.update i n (inodes idx)"
  "dirIndex (put_inode i n idx) = dirIndex idx" "extents (put_inode i n idx) = extents idx"
  "symlinks (put_inode i n idx) = symlinks idx" "xattrs (put_inode i n idx) = xattrs idx"
  "nextIno (put_inode i n idx) = nextIno idx" "blockSize (put_inode i n idx) = blockSize idx"
  by (simp_all add: put_inode_def)

lemma set_children_sel [simp]:
  "dirIndex (set_children p cs idx) = AList.update p cs (dirIndex idx)"
  "inodes (set_children p cs idx) = inodes idx" "extents (set_children p cs idx) = extents idx"
  "symlinks (set_children p cs idx) = symlinks idx" "xattrs (set_children p cs idx) = xattrs idx"
  "nextIno (set_children p cs idx) = nextIno idx" "blockSize (set_children p cs idx) = blockSize idx"
  by (simp_all add: set_children_def)

lemma mark_dirty_sel [simp]:
  "inodes (mark_dirty idx) = inodes idx" "dirIndex (mark_dirty idx) = dirIndex idx"
  "extents (mark_dirty idx) = extents idx" "symlinks (mark_dirty idx) = symlinks idx"
  "xattrs (mark_dirty idx) = xattrs idx" "nextIno (mark_dirty idx) = nextIno idx"
  "blockSize (mark_dirty idx) = blockSize idx" "dirty (mark_dirty idx)" "remoteDirty (mark_dirty idx)"
  by (simp_all add: mark_dirty_def)

lemma drop_inode_sel [simp]:
  "inodes (drop_inode i idx) = AList.delete i (inodes idx)"
  "dirIndex (drop_inode i idx) = AList.delete i (dirIndex idx)"
  "extents (drop_inode i idx) = AList.delete i (extents idx)"
  "symlinks (drop_inode i idx) = AList.delete i (symlinks idx)"
  "xattrs (drop_inode i idx) = AList.delete i (xattrs idx)"
  "nextIno (drop_inode i idx) = nextIno idx" "blockSize (drop_inode i idx) = blockSize idx"
  by (simp_all add: drop_inode_def)

lemma touch_mc_sel [simp]:
  "Ino (touch_mc now n) = Ino n" "FileType (touch_mc now n) = FileType n"
  "Nlink (touch_mc now n) = Nlink n" "Size (touch_mc now n) = Size n"
  by (simp_all add: touch_mc_def)

text \<open>
  An inode update that keeps the fields the invariant reads keeps the invariant.
  All the timestamp and attribute writes of the index go through this lemma.
\<close>

definition same_core :: "Inode \<Rightarrow> Inode \<Rightarrow> bool" where
  "same_core a b \<longleftrightarrow> Ino a = Ino b \<and> FileType a = FileType b \<and> Nlink a = Nlink b
     \<and> (FileType b = Regular \<longrightarrow> Size a = Size b)"

lemma same_core_touch [simp]: "same_core (touch_mc now n) n"
  by (simp add: same_core_def)

lemma put_inode_inv:
  assumes "index_inv idx" and "map_of (inodes idx) i = Some n" and "same_core m n"
  shows "index_inv (put_inode i m idx)"
proof -
  have core: "Ino m = Ino n" "FileType m = FileType n" "Nlink m = Nlink n"
    "FileType n = Regular \<Longrightarrow> Size m = Size n"
    using assms(3) by (simp_all add: same_core_def)
  have d: "is_dir (put_inode i m idx) p = is_dir idx p" and f: "is_file (put_inode i m idx) p = is_file idx p"
    for p using assms(2) core by (auto simp: is_dir_def is_file_def)
  have l: "Lookup (put_inode i m idx) = Lookup idx" by (simp add: Lookup_def fun_eq_iff)
  have e: "file_extents (put_inode i m idx) = file_extents idx" by (simp add: file_extents_def fun_eq_iff)
  from assms(1) have "wf_keys (put_inode i m idx)" by (simp add: index_inv_def wf_keys_def)
  moreover from assms core have "wf_inodes (put_inode i m idx)"
    by (auto simp: index_inv_def wf_inodes_def)
  moreover from assms have "wf_dirs (put_inode i m idx)"
    by (auto simp: index_inv_def wf_dirs_def d l)
  moreover from assms core have "wf_nlink (put_inode i m idx)"
    by (auto simp: index_inv_def wf_nlink_def)
  moreover from assms core have "wf_files (put_inode i m idx)"
    by (auto simp: index_inv_def wf_files_def f e)
  moreover from assms core have "wf_side (put_inode i m idx)"
    by (auto simp: index_inv_def wf_side_def)
  ultimately show ?thesis by (simp add: index_inv_def)
qed

lemma modify_inode_inv:
  assumes "index_inv idx" and "\<And>n. same_core (f n) n"
  shows "index_inv (modify_inode i f idx)"
  using assms by (auto simp: modify_inode_def intro: put_inode_inv split: option.splits)

lemma mark_dirty_inv [simp]: "index_inv (mark_dirty idx) \<longleftrightarrow> index_inv idx"
  by (simp add: index_inv_def wf_defs is_dir_def is_file_def Lookup_def file_extents_def)

section \<open>Counting references\<close>

lemma cnt_add: "map_of cs nm = None \<Longrightarrow> cnt i (AList.update nm c cs) = cnt i cs + (if c = i then 1 else 0)"
  by (simp add: cnt_def asum_update_new)

lemma cnt_remove:
  "keys_ok cs \<Longrightarrow> map_of cs nm = Some c \<Longrightarrow> cnt i (AList.delete nm cs) + (if c = i then 1 else 0) = cnt i cs"
  unfolding cnt_def by (rule asum_delete)

lemma refs_set:
  "map_of ds p = Some cs \<Longrightarrow> refs (AList.update p cs' ds) i + cnt i cs = refs ds i + cnt i cs'"
  unfolding refs_def by (rule asum_update_old)

lemma refs_new: "map_of ds p = None \<Longrightarrow> refs (AList.update p [] ds) i = refs ds i"
  by (simp add: refs_def asum_update_new cnt_def)

lemma refs_drop: "keys_ok ds \<Longrightarrow> map_of ds p = Some [] \<Longrightarrow> refs (AList.delete p ds) i = refs ds i"
  using asum_delete [of ds p "[]" "\<lambda>_ cs. cnt i cs"] by (simp add: refs_def cnt_def)

lemma cnt_pos: "map_of cs nm = Some i \<Longrightarrow> 0 < cnt i cs"
  by (induction cs) (auto simp: cnt_def split: if_splits)

lemma cnt_zero: "cnt i cs = 0 \<longleftrightarrow> i \<notin> snd ` set cs"
  by (induction cs) (auto simp: cnt_def)

lemma refs_ge: "map_of ds p = Some cs \<Longrightarrow> cnt i cs \<le> refs ds i"
  by (induction ds) (auto simp: refs_def split: if_splits)

lemma refs_fresh: "\<forall>d \<in> set ds. i \<notin> snd ` set (snd d) \<Longrightarrow> refs ds i = 0"
  by (induction ds) (auto simp: refs_def cnt_zero)

lemma inv_Lookup:
  assumes "index_inv idx" and "Lookup idx p nm = Some c"
  shows "\<exists>n. map_of (inodes idx) c = Some n" and "c \<noteq> RootIno"
    and "map_of (dirIndex idx) p = Some (children idx p)" and "map_of (children idx p) nm = Some c"
    and "keys_ok (children idx p)"
proof -
  have "map_of (inodes idx) c \<noteq> None \<and> c \<noteq> RootIno"
    using assms unfolding index_inv_def wf_dirs_def by blast
  then show "\<exists>n. map_of (inodes idx) c = Some n" and "c \<noteq> RootIno" by auto
  show d: "map_of (dirIndex idx) p = Some (children idx p)" and "map_of (children idx p) nm = Some c"
    using assms(2) by (auto simp: Lookup_def children_def split: option.splits)
  then show "keys_ok (children idx p)"
    using assms(1) unfolding index_inv_def wf_keys_def by blast
qed

lemma inv_is_dir:
  assumes "index_inv idx" and "map_of (inodes idx) p = Some n" and "FileType n = Directory"
  shows "map_of (dirIndex idx) p = Some (children idx p)" and "keys_ok (children idx p)"
proof -
  have "map_of (dirIndex idx) p \<noteq> None"
    using assms unfolding index_inv_def wf_dirs_def is_dir_def by blast
  then show d: "map_of (dirIndex idx) p = Some (children idx p)" by (auto simp: children_def)
  then show "keys_ok (children idx p)"
    using assms(1) unfolding index_inv_def wf_keys_def by blast
qed

lemma inv_not_dir:
  assumes "index_inv idx" and "map_of (inodes idx) p = Some n" and "FileType n \<noteq> Directory"
  shows "map_of (dirIndex idx) p = None"
  using assms unfolding index_inv_def wf_dirs_def is_dir_def by (metis option.inject)

lemma inv_nlink:
  assumes "index_inv idx" and "map_of (inodes idx) i = Some n"
  shows "unat (Nlink n) = refs (dirIndex idx) i + (if FileType n = Directory then 1 else 0)"
  using assms unfolding index_inv_def wf_nlink_def by blast

lemma inv_below:
  assumes "index_inv idx" and "map_of (inodes idx) i = Some n"
  shows "Ino n = i" and "i < nextIno idx"
  using assms unfolding index_inv_def wf_inodes_def by blast+

lemma inv_absent:
  assumes "index_inv idx" and "map_of (inodes idx) i = None"
  shows "map_of (dirIndex idx) i = None" and "map_of (extents idx) i = None"
    and "map_of (symlinks idx) i = None" and "map_of (xattrs idx) i = None"
proof -
  have "\<not> is_dir idx i" and "\<not> is_file idx i" using assms(2) by (simp_all add: is_dir_def is_file_def)
  then show "map_of (dirIndex idx) i = None" and "map_of (extents idx) i = None"
    using assms(1) unfolding index_inv_def wf_dirs_def wf_files_def by blast+
  show "map_of (symlinks idx) i = None" and "map_of (xattrs idx) i = None"
    using assms unfolding index_inv_def wf_side_def by fastforce+
qed

lemma inv_file:
  assumes "index_inv idx" and "map_of (inodes idx) i = Some n" and "FileType n = Regular"
  shows "0 \<le> Size n" and "Size n < 2 ^ 63" and "exts_ok (Size n) (file_extents idx i)"
    and "map_of (extents idx) i = Some (file_extents idx i)"
proof -
  show "0 \<le> Size n" and "Size n < 2 ^ 63" and "exts_ok (Size n) (file_extents idx i)"
    using assms unfolding index_inv_def wf_files_def by blast+
  have "is_file idx i" using assms(2,3) by (simp add: is_file_def)
  then have "map_of (extents idx) i \<noteq> None"
    using assms(1) unfolding index_inv_def wf_files_def by blast
  then show "map_of (extents idx) i = Some (file_extents idx i)" by (auto simp: file_extents_def)
qed

lemma inv_child_exists:
  assumes "index_inv idx" and "map_of (dirIndex idx) p = Some cs" and "map_of cs nm = Some d"
  shows "map_of (inodes idx) d \<noteq> None \<and> d \<noteq> RootIno"
  using inv_Lookup(1,2) [OF assms(1), of p nm d] assms(2,3) by (simp add: Lookup_def)

lemma inv_refs_fresh:
  assumes "index_inv idx" and "map_of (inodes idx) i = None"
  shows "refs (dirIndex idx) i = 0"
proof (rule refs_fresh, rule ballI, rule notI)
  fix d assume d: "d \<in> set (dirIndex idx)" and "i \<in> snd ` set (snd d)"
  then obtain nm where e: "(nm, i) \<in> set (snd d)" by auto
  from assms(1) d have p: "map_of (dirIndex idx) (fst d) = Some (snd d)"
    by (simp add: index_inv_def wf_keys_def keys_ok_map_of_iff)
  with assms(1) have "keys_ok (snd d)" by (auto simp: index_inv_def wf_keys_def)
  with e have "map_of (snd d) nm = Some i" by (simp add: keys_ok_map_of_iff)
  with p have "Lookup idx (fst d) nm = Some i" by (simp add: Lookup_def)
  with assms show False by (auto dest: inv_Lookup)
qed

section \<open>Changing one link\<close>

text \<open>
  Replacing the children of one directory, together with a matching change of one
  inode's link count, keeps the invariant.
\<close>

lemma link_change_inv:
  assumes inv: "index_inv idx" and p: "map_of (dirIndex idx) p = Some cs" and k: "keys_ok cs'"
    and ex: "\<And>nm d. map_of cs' nm = Some d \<Longrightarrow> map_of (inodes idx) d \<noteq> None \<and> d \<noteq> RootIno"
    and c: "map_of (inodes idx) c = Some n"
    and m: "Ino m = Ino n" "FileType m = FileType n" "Size m = Size n"
    and others: "\<And>i. i \<noteq> c \<Longrightarrow> cnt i cs' = cnt i cs"
    and nl: "unat (Nlink m) + cnt c cs = unat (Nlink n) + cnt c cs'"
  shows "index_inv (put_inode c m (set_children p cs' idx))" (is "index_inv ?new")
proof -
  have d: "is_dir ?new q = is_dir idx q" and f: "is_file ?new q = is_file idx q" for q
    using c m by (auto simp: is_dir_def is_file_def)
  have l: "Lookup ?new q nm = (if q = p then map_of cs' nm else Lookup idx q nm)" for q nm
    by (simp add: Lookup_def)
  have e: "file_extents ?new = file_extents idx" by (simp add: file_extents_def fun_eq_iff)
  from inv k have "wf_keys ?new" by (auto simp: index_inv_def wf_keys_def)
  moreover from inv c m have "wf_inodes ?new" by (auto simp: index_inv_def wf_inodes_def)
  moreover from inv p ex c have "wf_dirs ?new"
    by (auto simp: index_inv_def wf_dirs_def d l split: if_splits)
  moreover have "wf_nlink ?new"
    unfolding wf_nlink_def
  proof (intro allI impI)
    fix i x assume "map_of (inodes ?new) i = Some x"
    moreover have "refs (dirIndex ?new) i + cnt i cs = refs (dirIndex idx) i + cnt i cs'"
      using refs_set [OF p] by simp
    ultimately show "unat (Nlink x) = refs (dirIndex ?new) i + (if FileType x = Directory then 1 else 0)"
      using inv c m others [of i] nl by (auto simp: index_inv_def wf_nlink_def split: if_splits)
  qed
  moreover from inv c m have "wf_files ?new" by (auto simp: index_inv_def wf_files_def f e)
  moreover from inv c m have "wf_side ?new" by (auto simp: index_inv_def wf_side_def)
  ultimately show ?thesis by (simp add: index_inv_def)
qed

text \<open>Dropping an inode that no entry refers to keeps the invariant.\<close>

lemma drop_inode_inv:
  assumes inv: "index_inv idx" and c: "map_of (inodes idx) c = Some n" and r: "refs (dirIndex idx) c = 0"
    and e: "children idx c = []" and nr: "c \<noteq> RootIno"
  shows "index_inv (drop_inode c idx)" (is "index_inv ?new")
proof -
  have d: "is_dir ?new q \<longleftrightarrow> is_dir idx q \<and> q \<noteq> c" and f: "is_file ?new q \<longleftrightarrow> is_file idx q \<and> q \<noteq> c" for q
    by (auto simp: is_dir_def is_file_def)
  have fe: "q \<noteq> c \<Longrightarrow> file_extents ?new q = file_extents idx q" for q
    by (simp add: file_extents_def)
  have refs: "refs (dirIndex ?new) i = refs (dirIndex idx) i" for i
  proof (cases "map_of (dirIndex idx) c")
    case None
    then show ?thesis by simp
  next
    case (Some cs)
    with e inv show ?thesis by (simp add: children_def refs_drop index_inv_def wf_keys_def)
  qed
  have l: "Lookup ?new q nm = Some i \<Longrightarrow> Lookup idx q nm = Some i \<and> i \<noteq> c" for q nm i
  proof -
    assume "Lookup ?new q nm = Some i"
    then obtain cs where cs: "map_of (dirIndex idx) q = Some cs" "map_of cs nm = Some i" "q \<noteq> c"
      by (auto simp: Lookup_def split: option.splits if_splits)
    then have "cnt i cs \<le> refs (dirIndex idx) i" and "0 < cnt i cs" by (auto intro: refs_ge cnt_pos)
    with r cs show ?thesis by (auto simp: Lookup_def)
  qed
  from inv have "wf_keys ?new" by (auto simp: index_inv_def wf_keys_def)
  moreover from inv nr have "wf_inodes ?new" by (auto simp: index_inv_def wf_inodes_def)
  moreover have "\<And>q nm i. Lookup ?new q nm = Some i \<Longrightarrow> map_of (inodes ?new) i \<noteq> None \<and> i \<noteq> RootIno"
    using l inv by (fastforce simp: index_inv_def wf_dirs_def)
  then have "wf_dirs ?new" using inv by (auto simp: index_inv_def wf_dirs_def d)
  moreover from inv have "wf_nlink ?new"
    unfolding wf_nlink_def refs by (simp add: index_inv_def wf_nlink_def)
  moreover from inv have "wf_files ?new" by (auto simp: index_inv_def wf_files_def f fe)
  moreover from inv have "wf_side ?new" by (auto simp: index_inv_def wf_side_def)
  ultimately show ?thesis by (simp add: index_inv_def)
qed

section \<open>Every operation keeps the invariant\<close>

lemma New_index_inv: "index_inv (New_index bs now)"
  by (simp add: New_index_def Let_def index_inv_def wf_defs is_dir_def is_file_def Lookup_def
      zero_inode_def RootIno_def file_extents_def refs_def cnt_def keys_ok_def)

lemma CreateInode_inv:
  assumes inv: "index_inv idx" and room: "nextIno idx \<noteq> - 1"
    and c: "CreateInode idx ft mode uid gid rdev now = (i, idx')"
  shows "index_inv idx'" and "i = nextIno idx" and "GetInode idx i = None"
proof -
  from c show i: "i = nextIno idx" by (simp add: CreateInode_def Let_def)
  have fresh: "map_of (inodes idx) (nextIno idx) = None"
  proof (rule ccontr)
    assume "map_of (inodes idx) (nextIno idx) \<noteq> None"
    then obtain x where "map_of (inodes idx) (nextIno idx) = Some x" by auto
    with inv_below(2) [OF inv this] show False by simp
  qed
  then show "GetInode idx i = None" by (simp add: GetInode_def i)
  have up: "nextIno idx < nextIno idx + 1" using room by (rule less_inc)
  note none = inv_absent [OF inv fresh]
  let ?n = "fresh_inode idx ft mode uid gid rdev now"
  have n: "inodes idx' = AList.update i ?n (inodes idx)" using c by (auto simp: CreateInode_def Let_def)
  have n': "Ino ?n = i" "FileType ?n = ft" "Size ?n = 0" "Nlink ?n = (if ft = Directory then 1 else 0)"
    by (simp_all add: fresh_inode_def zero_inode_def i)
  have sel: "dirIndex idx' = (if ft = Directory then AList.update i [] (dirIndex idx) else dirIndex idx)"
    "extents idx' = (if ft = Regular then AList.update i [] (extents idx) else extents idx)"
    "symlinks idx' = symlinks idx" "xattrs idx' = xattrs idx" "nextIno idx' = nextIno idx + 1"
    using c by (auto simp: CreateInode_def Let_def)
  have d: "is_dir idx' q \<longleftrightarrow> is_dir idx q \<or> (q = i \<and> ft = Directory)"
    and f: "is_file idx' q \<longleftrightarrow> is_file idx q \<or> (q = i \<and> ft = Regular)" for q
    using n' fresh i by (auto simp: is_dir_def is_file_def n)
  have l: "Lookup idx' q nm = Lookup idx q nm" for q nm
    using none(1) i by (simp add: Lookup_def sel)
  have fe: "file_extents idx' q = (if q = i then [] else file_extents idx q)" for q
    using none(2) i by (simp add: file_extents_def sel)
  have r: "refs (dirIndex idx') j = refs (dirIndex idx) j" for j
    using none(1) i by (simp add: sel refs_new)
  have "wf_keys idx'" using inv by (auto simp: index_inv_def wf_keys_def sel n)
  moreover have "wf_inodes idx'"
    using inv fresh up i n' by (auto simp: index_inv_def wf_inodes_def sel n intro: less_trans)
  moreover have "wf_dirs idx'"
    using inv i by (auto simp: index_inv_def wf_dirs_def d l n sel(1) split: if_splits)
  moreover have "wf_nlink idx'"
    using inv inv_refs_fresh [OF inv fresh] i n' by (auto simp: index_inv_def wf_nlink_def r n)
  moreover have "wf_files idx'"
    using inv i fresh n' by (auto simp: index_inv_def wf_files_def f fe n sel(2) exts_ok_def)
  moreover have "wf_side idx'"
    using inv i fresh by (auto simp: index_inv_def wf_side_def sel n)
  ultimately show "index_inv idx'" by (simp add: index_inv_def)
qed

lemma AddDirEntry_inv:
  assumes inv: "index_inv idx" and ok: "AddDirEntry idx p nm c now = Inr idx'"
    and room: "\<And>n. GetInode idx c = Some n \<Longrightarrow> Nlink n \<noteq> - 1" and nr: "c \<noteq> RootIno"
  shows "index_inv idx'"
proof -
  from ok obtain parent n cs where p: "map_of (inodes idx) p = Some parent"
    and c: "map_of (inodes idx) c = Some n" and cs: "map_of (dirIndex idx) p = Some cs"
    and new: "map_of cs nm = None"
    and idx': "idx' = mark_dirty (modify_inode p (touch_mc now)
       (modify_inode c (\<lambda>c. c\<lparr>Nlink := Nlink c + 1, Ctime := now\<rparr>)
         (set_children p (AList.update nm c cs) idx)))"
    by (auto simp: AddDirEntry_def Lookup_def split: option.splits if_splits)
  let ?m = "n\<lparr>Nlink := Nlink n + 1, Ctime := now\<rparr>"
  have "Nlink n \<noteq> - 1" using room c by (simp add: GetInode_def)
  then have nl: "unat (Nlink ?m) = unat (Nlink n) + 1" by (simp add: unat_inc)
  have k: "keys_ok cs" using inv cs unfolding index_inv_def wf_keys_def by blast
  have "index_inv (put_inode c ?m (set_children p (AList.update nm c cs) idx))"
  proof (rule link_change_inv [OF inv cs _ _ c])
    show "map_of (inodes idx) d \<noteq> None \<and> d \<noteq> RootIno" if "map_of (AList.update nm c cs) x = Some d" for x d
      using that inv_child_exists [OF inv cs, of x d] c nr by (auto split: if_splits)
  qed (use k nl new in \<open>simp_all add: cnt_add\<close>)
  then have "index_inv (modify_inode c (\<lambda>c. c\<lparr>Nlink := Nlink c + 1, Ctime := now\<rparr>)
         (set_children p (AList.update nm c cs) idx))" by (simp add: modify_inode_def c)
  then show ?thesis unfolding idx' by (simp add: modify_inode_inv)
qed

text \<open>
  What is left of an entry's inode when the entry goes: the shared part of
  \<^verbatim>\<open>RemoveDirEntry\<close> and of a rename that replaces its destination.
\<close>

lemma unlink_inv:
  assumes inv: "index_inv idx" and l: "Lookup idx p nm = Some c" and c: "map_of (inodes idx) c = Some n"
    and e: "FileType n = Directory \<Longrightarrow> children idx c = []"
    and m: "Ino m = Ino n" "FileType m = FileType n" "Size m = Size n" "Nlink m = Nlink n - 1"
  defines "idx1 \<equiv> set_children p (AList.delete nm (children idx p)) idx"
  shows "index_inv (put_inode c m idx1)"
    and "Nlink n - 1 \<le> free_threshold n \<Longrightarrow> index_inv (drop_inode c idx1)"
    and "Nlink n - 1 \<le> free_threshold n \<longleftrightarrow> refs (dirIndex idx) c = 1"
proof -
  let ?cs = "children idx p" let ?ds = "AList.delete nm ?cs"
  note L = inv_Lookup [OF inv l]
  have cn: "cnt i ?ds + (if c = i then 1 else 0) = cnt i ?cs" for i
    using L by (intro cnt_remove) simp_all
  have ge: "cnt c ?cs \<le> refs (dirIndex idx) c" using L(3) by (rule refs_ge)
  have un: "unat (Nlink n) = refs (dirIndex idx) c + (if FileType n = Directory then 1 else 0)"
    using inv c by (rule inv_nlink)
  with cn [of c] ge have pos: "0 < unat (Nlink n)" by simp
  then have dec: "unat (Nlink n - 1) = unat (Nlink n) - 1" by (rule unat_dec)
  show thr: "Nlink n - 1 \<le> free_threshold n \<longleftrightarrow> refs (dirIndex idx) c = 1"
    using cn [of c] ge un dec by (auto simp: word_le_nat_alt free_threshold_def)
  show put: "index_inv (put_inode c m idx1)"
    unfolding idx1_def
  proof (rule link_change_inv [OF inv L(3) _ _ c])
    show "map_of (inodes idx) d \<noteq> None \<and> d \<noteq> RootIno" if "map_of ?ds x = Some d" for x d
      using that inv_child_exists [OF inv L(3), of x d] by (auto split: if_splits)
    show "cnt i ?ds = cnt i ?cs" if "i \<noteq> c" for i using cn [of i] that by simp
    show "unat (Nlink m) + cnt c ?cs = unat (Nlink n) + cnt c ?ds" using cn [of c] dec pos m by simp
  qed (use L m in simp_all)
  show "index_inv (drop_inode c idx1)" if "Nlink n - 1 \<le> free_threshold n"
  proof -
    let ?i = "put_inode c m idx1"
    have "refs (AList.update p ?ds (dirIndex idx)) c + cnt c ?cs = refs (dirIndex idx) c + cnt c ?ds"
      using L(3) by (rule refs_set)
    with cn [of c] thr that have r: "refs (dirIndex ?i) c = 0" by (simp add: idx1_def)
    have "children ?i c = []"
    proof (cases "FileType n = Directory")
      case True
      with e show ?thesis by (auto simp: children_def idx1_def split: option.splits)
    next
      case False
      with inv_not_dir [OF inv c] L(3) show ?thesis by (auto simp: children_def idx1_def)
    qed
    then have "index_inv (drop_inode c ?i)"
      using put r L(2) by (intro drop_inode_inv [where n = m]) simp_all
    moreover have "drop_inode c ?i = drop_inode c idx1"
      by (simp add: drop_inode_def put_inode_def delete_update_same)
    ultimately show ?thesis by simp
  qed
qed

lemma RemoveDirEntry_inv:
  assumes inv: "index_inv idx" and ok: "RemoveDirEntry idx p nm now = Inr idx'"
  shows "index_inv idx'"
proof -
  from ok obtain c n where l: "Lookup idx p nm = Some c" and c: "map_of (inodes idx) c = Some n"
    and e: "FileType n = Directory \<Longrightarrow> children idx c = []"
    and idx': "idx' = mark_dirty (modify_inode p (touch_mc now)
       (let idx1 = set_children p (AList.delete nm (children idx p)) idx
        in if Nlink n - 1 \<le> free_threshold n then drop_inode c idx1
           else put_inode c (n\<lparr>Nlink := Nlink n - 1, Ctime := now\<rparr>) idx1))"
    by (auto simp: RemoveDirEntry_def Let_def split: option.splits if_splits)
  have "index_inv (let idx1 = set_children p (AList.delete nm (children idx p)) idx
        in if Nlink n - 1 \<le> free_threshold n then drop_inode c idx1
           else put_inode c (n\<lparr>Nlink := Nlink n - 1, Ctime := now\<rparr>) idx1)"
    using unlink_inv [OF inv l c e, of "n\<lparr>Nlink := Nlink n - 1, Ctime := now\<rparr>"]
    by (simp add: Let_def)
  then show ?thesis unfolding idx' by (simp add: modify_inode_inv)
qed

end
