(* ===== verification/Index_Rename.thy ===== *)
theory Index_Rename
  imports Index_Inv
begin

text \<open>
  \<^verbatim>\<open>Index.Rename\<close>: a successful rename keeps the index invariant as long as source
  and destination are different inodes, and what goes wrong when they are the same.
\<close>

section \<open>Link counts between the steps\<close>

text \<open>
  Between the steps of a rename the link counts are off by one for the two
  inodes involved. \<open>index_inv_off d\<close> is the invariant with that debt made explicit.
\<close>

definition index_inv_off :: "(ino \<Rightarrow> int) \<Rightarrow> index \<Rightarrow> bool" where
  "index_inv_off d idx \<longleftrightarrow> wf_keys idx \<and> wf_inodes idx \<and> wf_dirs idx \<and> wf_files idx \<and> wf_side idx
     \<and> (\<forall>i n. map_of (inodes idx) i = Some n \<longrightarrow>
           uint (Nlink n) = int (refs (dirIndex idx) i)
             + (if FileType n = Directory then 1 else 0) + d i)"

lemma index_inv_off_0: "index_inv idx \<longleftrightarrow> index_inv_off (\<lambda>_. 0) idx"
proof -
  have "uint x = int b + (if P then 1 else 0) + 0 \<longleftrightarrow> unat x = b + (if P then 1 else 0)"
    for x :: u32 and b P using uint_eq_int_iff [of x "b + (if P then 1 else 0)"] by (cases P) (simp_all add: add.commute)
  then have "wf_nlink idx \<longleftrightarrow> (\<forall>i n. map_of (inodes idx) i = Some n \<longrightarrow>
      uint (Nlink n) = int (refs (dirIndex idx) i) + (if FileType n = Directory then 1 else 0) + 0)"
    unfolding wf_nlink_def by blast
  then show ?thesis unfolding index_inv_def index_inv_off_def by blast
qed

lemma set_children_off:
  assumes inv: "index_inv_off d idx" and p: "map_of (dirIndex idx) p = Some cs" and k: "keys_ok cs'"
    and ex: "\<And>nm c. map_of cs' nm = Some c \<Longrightarrow> map_of (inodes idx) c \<noteq> None \<and> c \<noteq> RootIno"
  shows "index_inv_off (\<lambda>i. d i + int (cnt i cs) - int (cnt i cs')) (set_children p cs' idx)"
    (is "index_inv_off ?d ?new")
proof -
  have dir: "is_dir ?new q = is_dir idx q" and f: "is_file ?new q = is_file idx q" for q
    by (simp_all add: is_dir_def is_file_def)
  have l: "Lookup ?new q nm = (if q = p then map_of cs' nm else Lookup idx q nm)" for q nm
    by (simp add: Lookup_def)
  have e: "file_extents ?new = file_extents idx" by (simp add: file_extents_def fun_eq_iff)
  have r: "int (refs (dirIndex ?new) i) + int (cnt i cs) = int (refs (dirIndex idx) i) + int (cnt i cs')" for i
    using refs_set [OF p, of cs' i] by (simp flip: of_nat_add)
  from inv k have "wf_keys ?new" by (auto simp: index_inv_off_def wf_keys_def)
  moreover from inv have "wf_inodes ?new" by (auto simp: index_inv_off_def wf_inodes_def)
  moreover from inv p ex have "wf_dirs ?new"
    by (auto simp: index_inv_off_def wf_dirs_def dir l split: if_splits)
  moreover from inv have "wf_files ?new" by (auto simp: index_inv_off_def wf_files_def f e)
  moreover from inv have "wf_side ?new" by (auto simp: index_inv_off_def wf_side_def)
  moreover have "uint (Nlink n) = int (refs (dirIndex ?new) i)
      + (if FileType n = Directory then 1 else 0) + ?d i" if "map_of (inodes ?new) i = Some n" for i n
    using that inv r [of i] by (simp add: index_inv_off_def)
  ultimately show ?thesis by (simp add: index_inv_off_def)
qed

lemma put_nlink_off:
  assumes inv: "index_inv_off d idx" and c: "map_of (inodes idx) c = Some n"
    and m: "Ino m = Ino n" "FileType m = FileType n" "Size m = Size n"
    and d': "\<And>i. d' i = d i + (if i = c then uint (Nlink m) - uint (Nlink n) else 0)"
  shows "index_inv_off d' (put_inode c m idx)"
proof -
  let ?new = "put_inode c m idx"
  have dir: "is_dir ?new q = is_dir idx q" and f: "is_file ?new q = is_file idx q" for q
    using c m by (auto simp: is_dir_def is_file_def)
  have l: "Lookup ?new = Lookup idx" by (simp add: Lookup_def fun_eq_iff)
  have e: "file_extents ?new = file_extents idx" by (simp add: file_extents_def fun_eq_iff)
  have "uint (Nlink x) = int (refs (dirIndex ?new) i)
      + (if FileType x = Directory then 1 else 0) + d' i" if "map_of (inodes ?new) i = Some x" for i x
    using that inv c m d' [of i] by (auto simp: index_inv_off_def split: if_splits)
  moreover from inv have "wf_keys ?new" by (simp add: index_inv_off_def wf_keys_def)
  moreover from inv c m have "wf_inodes ?new" by (auto simp: index_inv_off_def wf_inodes_def)
  moreover from inv have "wf_dirs ?new" by (auto simp: index_inv_off_def wf_dirs_def dir l)
  moreover from inv c m have "wf_files ?new" by (auto simp: index_inv_off_def wf_files_def f e)
  moreover from inv c m have "wf_side ?new" by (auto simp: index_inv_off_def wf_side_def)
  ultimately show ?thesis by (simp add: index_inv_off_def)
qed

lemma drop_set_children: "c \<noteq> p \<Longrightarrow> drop_inode c (set_children p cs idx) = set_children p cs (drop_inode c idx)"
  by (simp add: drop_inode_def set_children_def delete_update)

text \<open>Moving the source entry to the destination name, with the destination's count adjusted.\<close>

definition move_entry :: "index \<Rightarrow> ino \<Rightarrow> string \<Rightarrow> ino \<Rightarrow> string \<Rightarrow> ino \<Rightarrow> index" where
  "move_entry idx sp sn dp dn s =
     (let idx1 = set_children sp (AList.delete sn (children idx sp)) idx
      in set_children dp (AList.update dn s (children idx1 dp)) idx1)"

lemma move_entry_off:
  assumes inv: "index_inv idx" and src: "Lookup idx sp sn = Some s"
    and dp: "map_of (dirIndex idx) dp \<noteq> None" and ne: "Lookup idx dp dn \<noteq> Some s"
  shows "index_inv_off (\<lambda>i. if Lookup idx dp dn = Some i then 1 else 0) (move_entry idx sp sn dp dn s)"
proof -
  note L = inv_Lookup [OF inv src]
  let ?cs = "children idx sp" let ?i1 = "set_children sp (AList.delete sn ?cs) idx"
  let ?ds = "children ?i1 dp"
  have c1: "cnt i (AList.delete sn ?cs) + (if s = i then 1 else 0) = cnt i ?cs" for i
    using L by (intro cnt_remove) simp_all
  have i1: "index_inv_off (\<lambda>i. 0 + int (cnt i ?cs) - int (cnt i (AList.delete sn ?cs))) ?i1"
    using L inv_child_exists [OF inv L(3)] inv
    by (intro set_children_off [where d = "\<lambda>_. 0"]) (auto simp flip: index_inv_off_0 split: if_splits)
  have dp1: "map_of (dirIndex ?i1) dp = Some ?ds" using dp by (auto simp: children_def)
  have k: "keys_ok ?ds" using i1 dp1 unfolding index_inv_off_def wf_keys_def by blast
  have look: "map_of ?ds dn = (if dp = sp \<and> dn = sn then None else Lookup idx dp dn)"
    using dp by (auto simp: children_def Lookup_def)
  have ndn: "Lookup idx dp dn = map_of ?ds dn" using look ne src by auto
  have ex: "map_of (inodes idx) c \<noteq> None \<and> c \<noteq> RootIno" if "map_of (AList.update dn s ?ds) x = Some c" for x c
  proof (cases "x = dn")
    case True
    with that L show ?thesis by auto
  next
    case False
    with that dp have "Lookup idx dp x = Some c" by (auto simp: children_def Lookup_def split: if_splits)
    with inv_Lookup(1,2) [OF inv this] show ?thesis by auto
  qed
  have i2: "index_inv_off (\<lambda>i. (0 + int (cnt i ?cs) - int (cnt i (AList.delete sn ?cs))) + int (cnt i ?ds)
      - int (cnt i (AList.update dn s ?ds))) (move_entry idx sp sn dp dn s)"
    unfolding move_entry_def Let_def
    by (rule set_children_off [OF i1 dp1]) (use k ex in simp_all)
  have "0 + int (cnt i ?cs) - int (cnt i (AList.delete sn ?cs)) + int (cnt i ?ds)
      - int (cnt i (AList.update dn s ?ds)) = (if Lookup idx dp dn = Some i then 1 else 0)" for i
  proof (cases "map_of ?ds dn")
    case None
    with c1 [of i] ndn show ?thesis by (simp add: cnt_add)
  next
    case (Some c)
    then have "cnt i (AList.update dn s ?ds) + (if c = i then 1 else 0) = cnt i ?ds + (if s = i then 1 else 0)"
      unfolding cnt_def by (rule asum_update_old)
    with c1 [of i] Some ndn ne show ?thesis by (auto split: if_splits)
  qed
  with i2 show ?thesis by simp
qed

lemma rename_dst_cases:
  assumes "rename_unlink_dst idx dp dn = Inr idx1"
  obtains (absent) "Lookup idx dp dn = None" "idx1 = idx"
  | (kept) c n where "Lookup idx dp dn = Some c" "map_of (inodes idx) c = Some n"
      "FileType n = Directory \<Longrightarrow> children idx c = []"
      "\<not> Nlink n - 1 \<le> free_threshold n" "idx1 = put_inode c (n\<lparr>Nlink := Nlink n - 1\<rparr>) idx"
  | (freed) c n where "Lookup idx dp dn = Some c" "map_of (inodes idx) c = Some n"
      "FileType n = Directory \<Longrightarrow> children idx c = []"
      "Nlink n - 1 \<le> free_threshold n" "idx1 = drop_inode c idx"
proof (cases "Lookup idx dp dn")
  case None
  with assms show ?thesis by (intro absent) (simp_all add: rename_unlink_dst_def)
next
  case (Some c)
  with assms obtain n where n: "map_of (inodes idx) c = Some n"
    by (auto simp: rename_unlink_dst_def split: option.splits)
  with assms Some have e: "\<not> (FileType n = Directory \<and> children idx c \<noteq> [])"
    by (auto simp: rename_unlink_dst_def split: if_splits)
  show ?thesis
  proof (cases "Nlink n - 1 \<le> free_threshold n")
    case True
    with assms Some n e show ?thesis by (intro freed [of c n]) (auto simp: rename_unlink_dst_def Let_def)
  next
    case False
    with assms Some n e show ?thesis by (intro kept [of c n]) (auto simp: rename_unlink_dst_def Let_def)
  qed
qed

lemma children_nonempty: "Lookup idx p nm = Some c \<Longrightarrow> children idx p \<noteq> []"
  by (auto simp: Lookup_def children_def split: option.splits)

text \<open>
  Up to timestamps and flags, a successful rename is \<open>move_entry\<close> with the
  replaced inode released; this is where the source's order of updates matters.
\<close>

lemma move_entry_sel:
  "inodes (move_entry idx sp sn dp dn s) = inodes idx"
  "extents (move_entry idx sp sn dp dn s) = extents idx"
  by (simp_all add: move_entry_def Let_def)

lemma move_entry_put:
  "move_entry (put_inode c m idx) sp sn dp dn s = put_inode c m (move_entry idx sp sn dp dn s)"
  by (simp add: move_entry_def Let_def put_inode_def set_children_def children_def)

lemma move_entry_drop:
  assumes "c \<noteq> sp" and "c \<noteq> dp"
  shows "move_entry (drop_inode c idx) sp sn dp dn s = drop_inode c (move_entry idx sp sn dp dn s)"
  using assms by (simp add: move_entry_def Let_def drop_set_children children_def)

lemma move_dst_released:
  assumes inv: "index_inv idx" and src: "Lookup idx sp sn = Some s" and dst: "Lookup idx dp dn = Some c"
    and ne: "c \<noteq> s" and c: "map_of (inodes idx) c = Some n"
    and e: "FileType n = Directory \<Longrightarrow> children idx c = []"
  shows "index_inv (put_inode c (n\<lparr>Nlink := Nlink n - 1\<rparr>) (move_entry idx sp sn dp dn s))"
    and "Nlink n - 1 \<le> free_threshold n \<Longrightarrow> index_inv (drop_inode c (move_entry idx sp sn dp dn s))"
    and "c \<noteq> sp" and "c \<noteq> dp"
proof -
  let ?M = "move_entry idx sp sn dp dn s" let ?m = "n\<lparr>Nlink := Nlink n - 1\<rparr>"
  have isd: "FileType n = Directory" if "map_of (dirIndex idx) c \<noteq> None"
    using inv_not_dir [OF inv c] that by auto
  then show csp: "c \<noteq> sp" and cdp: "c \<noteq> dp"
    using children_nonempty [OF src] children_nonempty [OF dst] e
      inv_Lookup(3) [OF inv src] inv_Lookup(3) [OF inv dst] by auto
  have un: "unat (Nlink n) = refs (dirIndex idx) c + (if FileType n = Directory then 1 else 0)"
    using inv c by (rule inv_nlink)
  have "0 < refs (dirIndex idx) c"
    using cnt_pos [OF inv_Lookup(4) [OF inv dst]] refs_ge [OF inv_Lookup(3) [OF inv dst], of c] by simp
  with un have pos: "0 < unat (Nlink n)" by simp
  then have ud: "uint (Nlink n - 1) = uint (Nlink n) - 1" by (rule uint_dec)
  have M: "index_inv_off (\<lambda>i. if Lookup idx dp dn = Some i then 1 else 0) ?M"
    using inv_Lookup(3) [OF inv dst] dst ne by (intro move_entry_off [OF inv src]) auto
  have "index_inv_off (\<lambda>_. 0) (put_inode c ?m ?M)"
    using ud dst c by (intro put_nlink_off [OF M, of c n]) (auto simp: move_entry_sel)
  then show put: "index_inv (put_inode c ?m ?M)" by (simp add: index_inv_off_0)
  assume thr: "Nlink n - 1 \<le> free_threshold n"
  then have "unat (Nlink ?m) \<le> (if FileType n = Directory then 1 else 0)"
    by (auto simp: word_le_nat_alt free_threshold_def)
  moreover have "map_of (inodes (put_inode c ?m ?M)) c = Some ?m" by simp
  ultimately have r: "refs (dirIndex (put_inode c ?m ?M)) c = 0"
    using inv_nlink [OF put] by fastforce
  have "children (put_inode c ?m ?M) c = children idx c"
    using csp cdp by (simp add: children_def move_entry_def Let_def)
  also have "\<dots> = []" using e isd by (auto simp: children_def split: option.splits)
  finally have "index_inv (drop_inode c (put_inode c ?m ?M))"
    using put r inv_Lookup(2) [OF inv dst] by (intro drop_inode_inv) simp_all
  then show "index_inv (drop_inode c ?M)"
    by (simp add: drop_inode_def put_inode_def delete_update_same)
qed

lemma Rename_shape:
  assumes ok: "Rename idx sp sn dp dn now = Inr idx'" and src: "Lookup idx sp sn = Some s"
    and u: "rename_unlink_dst idx dp dn = Inr idx1" and sp: "map_of (dirIndex idx1) sp \<noteq> None"
  shows "map_of (dirIndex (set_children sp (AList.delete sn (children idx1 sp)) idx1)) dp \<noteq> None"
    and "idx' = mark_dirty ((if dp \<noteq> sp then modify_inode dp (touch_mc now) else id)
      (modify_inode sp (touch_mc now) (modify_inode s (\<lambda>n. n\<lparr>Ctime := now\<rparr>)
        (move_entry idx1 sp sn dp dn s))))"
proof -
  from sp obtain cs where cs: "map_of (dirIndex idx1) sp = Some cs" by auto
  let ?i = "set_children sp (AList.delete sn cs) idx1"
  from ok src u cs obtain ds where ds: "map_of (dirIndex ?i) dp = Some ds"
    by (auto simp: Rename_def Let_def split: option.splits if_splits)
  with cs show "map_of (dirIndex (set_children sp (AList.delete sn (children idx1 sp)) idx1)) dp \<noteq> None"
    by (simp add: children_def)
  from ds have "children ?i dp = ds" by (simp add: children_def)
  with ok src u cs ds show "idx' = mark_dirty ((if dp \<noteq> sp then modify_inode dp (touch_mc now) else id)
      (modify_inode sp (touch_mc now) (modify_inode s (\<lambda>n. n\<lparr>Ctime := now\<rparr>)
        (move_entry idx1 sp sn dp dn s))))"
    by (auto simp: Rename_def Let_def move_entry_def children_def [of idx1] split: if_splits)
qed

section \<open>A rename keeps the invariant\<close>

lemma Rename_moved:
  assumes inv: "index_inv idx" and ok: "Rename idx sp sn dp dn now = Inr idx'"
    and src: "Lookup idx sp sn = Some s" and ne: "Lookup idx dp dn \<noteq> Some s"
    and u: "rename_unlink_dst idx dp dn = Inr idx1"
  shows "index_inv (move_entry idx1 sp sn dp dn s)" and "map_of (dirIndex idx1) sp \<noteq> None"
proof -
  note S = inv_Lookup [OF inv src]
  have "index_inv (move_entry idx1 sp sn dp dn s) \<and> map_of (dirIndex idx1) sp \<noteq> None"
    using u
  proof (cases rule: rename_dst_cases)
    case absent
    have "map_of (dirIndex idx) dp \<noteq> None"
      using Rename_shape(1) [OF ok src u] S absent by (auto split: if_splits)
    then have "index_inv_off (\<lambda>i. if Lookup idx dp dn = Some i then 1 else 0) (move_entry idx sp sn dp dn s)"
      using ne by (intro move_entry_off [OF inv src])
    with absent S show ?thesis by (simp add: index_inv_off_0)
  next
    case (kept c n)
    then have "c \<noteq> s" using ne by auto
    with move_dst_released [OF inv src kept(1) this kept(2,3)] kept S show ?thesis
      by (simp add: move_entry_put)
  next
    case (freed c n)
    then have "c \<noteq> s" using ne by auto
    with move_dst_released [OF inv src freed(1) this freed(2,3)] freed S show ?thesis
      by (simp add: move_entry_drop)
  qed
  then show "index_inv (move_entry idx1 sp sn dp dn s)" and "map_of (dirIndex idx1) sp \<noteq> None" by auto
qed

lemma Rename_ok_dst: "Rename idx sp sn dp dn now = Inr idx' \<Longrightarrow> \<exists>idx1. rename_unlink_dst idx dp dn = Inr idx1"
  by (auto simp: Rename_def split: option.splits sum.splits)

lemma Rename_inv:
  assumes inv: "index_inv idx" and ok: "Rename idx sp sn dp dn now = Inr idx'"
    and ne: "Lookup idx dp dn \<noteq> Lookup idx sp sn"
  shows "index_inv idx'"
proof -
  from ok obtain s where src: "Lookup idx sp sn = Some s" by (auto simp: Rename_def split: option.splits)
  from Rename_ok_dst [OF ok] obtain idx1 where u: "rename_unlink_dst idx dp dn = Inr idx1" ..
  note M = Rename_moved [OF inv ok src _ u]
  have "index_inv (move_entry idx1 sp sn dp dn s)" and "map_of (dirIndex idx1) sp \<noteq> None"
    using M ne src by auto
  then show ?thesis
    using Rename_shape(2) [OF ok src u] by (auto simp: same_core_def intro!: modify_inode_inv)
qed

end
