(* ===== verification/Index_Data.thy ===== *)
theory Index_Data
  imports Index_Rename
begin

text \<open>
  The operations of the index that change attributes, extents, symlink targets
  and extended attributes: they keep the invariant, and on the data they do what
  the extent-list lemmas say. \<open>used_total\<close> is the mathematical sum that \<^verbatim>\<open>UsedBytes\<close>
  computes with 64-bit additions.
\<close>

section \<open>Invariant\<close>

lemma file_update_inv:
  assumes inv: "index_inv idx" and i: "map_of (inodes idx) i = Some n" and f: "FileType n = Regular"
    and m: "Ino m = Ino n" "FileType m = FileType n" "Nlink m = Nlink n"
    and sz: "0 \<le> Size m" "Size m < 2 ^ 63" "exts_ok (Size m) es"
  shows "index_inv (put_inode i m (idx\<lparr>extents := AList.update i es (extents idx)\<rparr>))" (is "index_inv ?new")
proof -
  have d: "is_dir ?new q = is_dir idx q" and fi: "is_file ?new q = is_file idx q" for q
    using i m by (auto simp: is_dir_def is_file_def)
  have l: "Lookup ?new = Lookup idx" by (simp add: Lookup_def fun_eq_iff)
  have e: "file_extents ?new q = (if q = i then es else file_extents idx q)" for q
    by (simp add: file_extents_def)
  have isf: "is_file idx i" using i f by (simp add: is_file_def)
  from inv have "wf_keys ?new" by (simp add: index_inv_def wf_keys_def)
  moreover from inv i m have "wf_inodes ?new" by (auto simp: index_inv_def wf_inodes_def)
  moreover from inv have "wf_dirs ?new" using i by (auto simp: index_inv_def wf_dirs_def d l)
  moreover from inv i m have "wf_nlink ?new" by (auto simp: index_inv_def wf_nlink_def)
  moreover from inv i m sz isf have "wf_files ?new" by (auto simp: index_inv_def wf_files_def fi e)
  moreover from inv i m f have "wf_side ?new" by (auto simp: index_inv_def wf_side_def)
  ultimately show ?thesis by (simp add: index_inv_def)
qed

lemma side_update_inv:
  assumes inv: "index_inv idx" and i: "map_of (inodes idx) i = Some n"
  shows "FileType n = Symlink \<Longrightarrow> index_inv (idx\<lparr>symlinks := AList.update i t (symlinks idx)\<rparr>)"
    and "index_inv (idx\<lparr>xattrs := AList.update i a (xattrs idx)\<rparr>)"
  using assms by (auto simp: index_inv_def wf_defs is_dir_def is_file_def Lookup_def file_extents_def)

lemma grow_sel [simp]:
  "Ino (grow s n) = Ino n" "FileType (grow s n) = FileType n" "Nlink (grow s n) = Nlink n"
  "Size (grow s n) = max (Size n) s"
  by (auto simp: grow_def max_def)

lemma exts_ok_mono: "exts_ok a es \<Longrightarrow> a \<le> b \<Longrightarrow> exts_ok b es"
  by (fastforce simp: exts_ok_def)

lemma WriteExtent_inv:
  assumes inv: "index_inv idx" and ext: "ext_ok ext" and ok: "WriteExtent idx i ext now = Inr idx'"
  shows "index_inv idx'"
proof -
  from ok obtain n where n: "map_of (inodes idx) i = Some n" and f: "FileType n = Regular"
    and idx': "idx' = mark_dirty (put_inode i (touch_mc now (grow (i64 (FileOffset ext + Length ext)) n))
      (idx\<lparr>extents := AList.update i (write_extents ext (file_extents idx i)) (extents idx)\<rparr>))"
    by (auto simp: WriteExtent_def Let_def split: option.splits if_splits)
  have e: "i64 (FileOffset ext + Length ext) = FileOffset ext + Length ext"
    using ext by (simp add: ext_ok_def i64_simps)
  note F = inv_file [OF inv n f]
  have "exts_ok (max (Size n) (FileOffset ext + Length ext)) (write_extents ext (file_extents idx i))"
    using ext F(3) by (rule write_extents_ok)
  with F ext show ?thesis unfolding idx' e
    by (simp add: file_update_inv [OF inv n f] ext_ok_def)
qed

lemma AppendExtent_inv:
  assumes inv: "index_inv idx" and ext: "ext_ok ext" and ok: "AppendExtent idx i ext now = Inr idx'"
  shows "index_inv idx'"
proof -
  from ok obtain n where n: "map_of (inodes idx) i = Some n" and f: "FileType n = Regular"
    and idx': "idx' = mark_dirty (put_inode i (touch_mc now (grow (i64 (FileOffset ext + Length ext)) n))
      (idx\<lparr>extents := AList.update i (file_extents idx i @ [ext]) (extents idx)\<rparr>))"
    by (auto simp: AppendExtent_def Let_def split: option.splits if_splits)
  have e: "i64 (FileOffset ext + Length ext) = FileOffset ext + Length ext"
    using ext by (simp add: ext_ok_def i64_simps)
  note F = inv_file [OF inv n f]
  have "exts_ok (max (Size n) (FileOffset ext + Length ext)) (file_extents idx i @ [ext])"
    using ext exts_ok_mono [OF F(3), of "max (Size n) (FileOffset ext + Length ext)"]
    by (auto simp: exts_ok_def)
  with F ext show ?thesis unfolding idx' e
    by (simp add: file_update_inv [OF inv n f] ext_ok_def)
qed

text \<open>\<open>attr_inode\<close> is the inode after the unconditional part of \<^verbatim>\<open>SetAttr\<close>.\<close>

definition attr_inode ::
  "u32 option \<Rightarrow> u32 option \<Rightarrow> u32 option \<Rightarrow> int option \<Rightarrow> int option \<Rightarrow> Inode \<Rightarrow> Inode" where
  "attr_inode mode uid gid atime mtime n =
     opt_set mtime (\<lambda>v n. n\<lparr>Mtime := v\<rparr>) (opt_set atime (\<lambda>v n. n\<lparr>Atime := v\<rparr>)
       (opt_set gid (\<lambda>v n. n\<lparr>GID := v\<rparr>) (opt_set uid (\<lambda>v n. n\<lparr>UID := v\<rparr>)
         (opt_set mode (\<lambda>v n. n\<lparr>Mode := v\<rparr>) n))))"

lemma attr_inode_sel [simp]:
  "Ino (attr_inode mode uid gid atime mtime n) = Ino n"
  "FileType (attr_inode mode uid gid atime mtime n) = FileType n"
  "Nlink (attr_inode mode uid gid atime mtime n) = Nlink n"
  "Size (attr_inode mode uid gid atime mtime n) = Size n"
  by (simp_all add: attr_inode_def opt_set_def split: option.splits)

lemma SetAttr_eq:
  "SetAttr idx i mode uid gid sz atime mtime now =
     (case GetInode idx i of
        None \<Rightarrow> Inl (InodeNotFound i)
      | Some n \<Rightarrow>
          let m = attr_inode mode uid gid atime mtime n
          in Inr (mark_dirty
               (case sz of
                  Some s \<Rightarrow>
                    if s = Size n then put_inode i (m\<lparr>Ctime := now\<rparr>) idx
                    else put_inode i (m\<lparr>Size := s, Blocks := blocks512 s, Mtime := now, Ctime := now\<rparr>)
                           (if FileType n = Regular then trimExtents i s idx else idx)
                | None \<Rightarrow> put_inode i (m\<lparr>Ctime := now\<rparr>) idx)))"
proof -
  have n: "opt_set mtime (\<lambda>v n. n\<lparr>Mtime := v\<rparr>) (opt_set atime (\<lambda>v n. n\<lparr>Atime := v\<rparr>)
       (opt_set gid (\<lambda>v n. n\<lparr>GID := v\<rparr>) (opt_set uid (\<lambda>v n. n\<lparr>UID := v\<rparr>)
         (opt_set mode (\<lambda>v n. n\<lparr>Mode := v\<rparr>) n)))) = attr_inode mode uid gid atime mtime n" for n
    by (simp add: attr_inode_def)
  show ?thesis
    unfolding SetAttr_def GetInode_def Let_def n by (simp split: option.splits)
qed

lemma SetAttr_inv:
  assumes inv: "index_inv idx" and ok: "SetAttr idx i mode uid gid sz atime mtime now = Inr idx'"
    and s: "\<And>s. sz = Some s \<Longrightarrow> 0 \<le> s \<and> s < 2 ^ 63"
  shows "index_inv idx'"
proof -
  from ok obtain n where n: "map_of (inodes idx) i = Some n"
    by (auto simp: SetAttr_eq GetInode_def split: option.splits)
  let ?m = "attr_inode mode uid gid atime mtime n"
  have keep: "index_inv (put_inode i (?m\<lparr>Ctime := now\<rparr>) idx)"
    by (rule put_inode_inv [OF inv n]) (simp add: same_core_def)
  have size: "index_inv (put_inode i (?m\<lparr>Size := v, Blocks := blocks512 v, Mtime := now, Ctime := now\<rparr>)
      (if FileType n = Regular then trimExtents i v idx else idx))" if "0 \<le> v" "v < 2 ^ 63" for v
  proof (cases "FileType n = Regular")
    case True
    note F = inv_file [OF inv n True]
    have "exts_ok v (trim_loop v (file_extents idx i))" using F(3) that by (rule trim_loop_ok)
    with True that show ?thesis
      by (simp add: trimExtents_def file_update_inv [OF inv n True])
  next
    case False
    then show ?thesis by (simp add: put_inode_inv [OF inv n] same_core_def)
  qed
  from ok n keep size s show ?thesis
    by (auto simp: SetAttr_eq GetInode_def Let_def split: option.splits if_splits)
qed

lemma SetSymlink_inv:
  assumes "index_inv idx" and "SetSymlink idx i t now = Inr idx'"
  shows "index_inv idx'"
  using assms side_update_inv(1) [OF assms(1)]
  by (auto simp: SetSymlink_def same_core_def intro!: put_inode_inv split: option.splits if_splits)

lemma SetXattr_inv:
  assumes "index_inv idx" and "SetXattr idx i nm v now = Inr idx'"
  shows "index_inv idx'"
  using assms side_update_inv(2) [OF assms(1)]
  by (auto simp: SetXattr_def same_core_def intro!: put_inode_inv split: option.splits)

lemma RemoveXattr_inv:
  assumes "index_inv idx" and "RemoveXattr idx i nm now = Inr idx'"
  shows "index_inv idx'"
  using assms side_update_inv(2) [OF assms(1)]
  by (auto simp: RemoveXattr_def same_core_def intro!: put_inode_inv split: option.splits if_splits)

lemma dirty_update_inv [simp]: "index_inv (idx\<lparr>dirty := b\<rparr>) \<longleftrightarrow> index_inv idx"
  by (simp add: index_inv_def wf_defs is_dir_def is_file_def Lookup_def file_extents_def)

lemma TouchAtime_inv: "index_inv idx \<Longrightarrow> index_inv (TouchAtime idx i now)"
  by (auto simp: TouchAtime_def same_core_def intro!: put_inode_inv split: option.splits)

text \<open>
  Remapping keeps the invariant when every replacement describes the same range
  of the file; the compactor's replacements do.
\<close>

definition remap_keeps :: "(string \<times> int, Extent) gomap \<Rightarrow> Extent list \<Rightarrow> bool" where
  "remap_keeps remap es \<longleftrightarrow> (\<forall>e \<in> set es. \<forall>e'. map_of remap (ChunkID e, ChunkOffset e) = Some e' \<longrightarrow>
     FileOffset e' = FileOffset e \<and> Length e' = Length e \<and> ext_ok e')"

lemma remap_list_ok: "remap_keeps remap es \<Longrightarrow> exts_ok sz es \<Longrightarrow> exts_ok sz (remap_list remap es)"
  by (fastforce simp: remap_keeps_def exts_ok_def remap_list_def split: option.splits)

lemma map_of_remap:
  "map_of (extents (RemapExtents remap idx)) i = map_option (remap_list remap) (map_of (extents idx) i)"
proof -
  have "map_of (map (\<lambda>(i, es). (i, remap_list remap es)) m) i = map_option (remap_list remap) (map_of m i)" for m
    by (induction m) auto
  then show ?thesis by (simp add: RemapExtents_def)
qed

lemma RemapExtents_sel [simp]:
  "inodes (RemapExtents r idx) = inodes idx" "dirIndex (RemapExtents r idx) = dirIndex idx"
  "symlinks (RemapExtents r idx) = symlinks idx" "xattrs (RemapExtents r idx) = xattrs idx"
  "nextIno (RemapExtents r idx) = nextIno idx"
  "map fst (extents (RemapExtents r idx)) = map fst (extents idx)"
  by (auto simp: RemapExtents_def)

lemma RemapExtents_file:
  "file_extents (RemapExtents r idx) i = remap_list r (file_extents idx i)"
  by (auto simp: file_extents_def map_of_remap remap_list_def split: option.splits)

lemma file_extents_live: "set (file_extents idx i) \<subseteq> set (LiveExtents idx)"
proof (cases "map_of (extents idx) i")
  case None
  then show ?thesis by (simp add: file_extents_def)
next
  case (Some es)
  then have "(i, es) \<in> set (extents idx)" by (rule map_of_SomeD)
  then show ?thesis using Some by (auto simp: file_extents_def LiveExtents_def)
qed

lemma RemapExtents_inv:
  assumes inv: "index_inv idx" and r: "remap_keeps remap (LiveExtents idx)"
  shows "index_inv (RemapExtents remap idx)" (is "index_inv ?new")
proof -
  have d: "is_dir ?new = is_dir idx" and f: "is_file ?new = is_file idx"
    by (simp_all add: is_dir_def is_file_def fun_eq_iff)
  have l: "Lookup ?new = Lookup idx" by (simp add: Lookup_def fun_eq_iff)
  have "remap_keeps remap (file_extents idx i)" for i
    using r file_extents_live [of idx i] by (auto simp: remap_keeps_def)
  then have e: "exts_ok sz (file_extents idx i) \<Longrightarrow> exts_ok sz (file_extents ?new i)" for sz i
    by (simp add: RemapExtents_file remap_list_ok)
  from inv have "wf_keys ?new" by (simp add: index_inv_def wf_keys_def keys_ok_def)
  moreover from inv have "wf_inodes ?new" by (simp add: index_inv_def wf_inodes_def)
  moreover from inv have "wf_dirs ?new" by (simp add: index_inv_def wf_dirs_def d l)
  moreover from inv have "wf_nlink ?new" by (simp add: index_inv_def wf_nlink_def)
  moreover from inv e have "wf_files ?new" by (simp add: index_inv_def wf_files_def f map_of_remap)
  moreover from inv have "wf_side ?new" by (simp add: index_inv_def wf_side_def)
  ultimately show ?thesis by (simp add: index_inv_def)
qed

section \<open>Space accounting\<close>

definition used_total :: "index \<Rightarrow> int" where
  "used_total idx = asum (\<lambda>_ n. if FileType n = Regular then Size n else 0) (inodes idx)"

lemma UsedBytes_i64: "UsedBytes idx = i64 (used_total idx)"
proof -
  have "foldl (\<lambda>total (k, n). if FileType n = Regular then i64 (total + Size n) else total) (i64 t) m
      = i64 (t + asum (\<lambda>_ n. if FileType n = Regular then Size n else 0) m)" for t and m :: "(ino, Inode) gomap"
  proof (induction m arbitrary: t)
    case Nil
    then show ?case by simp
  next
    case (Cons p m)
    then show ?case by (cases p) (simp add: i64_add_left add.assoc)
  qed
  from this [of 0] show ?thesis by (simp add: UsedBytes_def used_total_def i64_def)
qed

lemma used_total_put:
  assumes "map_of (inodes idx) i = Some n" and "FileType m = FileType n"
  shows "used_total (put_inode i m idx) =
    used_total idx + (if FileType n = Regular then Size m - Size n else 0)"
  using asum_update_old [OF assms(1), of "\<lambda>_ n. if FileType n = Regular then Size n else 0" m] assms(2)
  by (auto simp: used_total_def split: if_splits)

end
