(* ===== verification/Index_Snapshot.thy ===== *)
theory Index_Snapshot
  imports Index_Data
begin

text \<open>
  \<^verbatim>\<open>FromSnapshot\<close> inverts \<^verbatim>\<open>Snapshot\<close>: the rebuilt index has the same inodes,
  extents, targets and attributes, and the directory map rebuilt from the flat
  entry list is the same map, whatever order the entries were listed in.
\<close>

section \<open>Rebuilding the directory map\<close>

lemma foldl_update_append:
  "keys_ok (pre @ cs) \<Longrightarrow> foldl (\<lambda>m (k, v). AList.update k v m) pre cs = pre @ cs"
proof (induction cs arbitrary: pre)
  case Nil
  then show ?case by simp
next
  case (Cons e cs)
  obtain k v where e: "e = (k, v)" by force
  from Cons.prems e have "k \<notin> fst ` set pre" by (auto simp: keys_ok_def)
  then have "AList.update k v pre = pre @ [(k, v)]"
    by (induction pre) auto
  with Cons.IH [of "pre @ [(k, v)]"] Cons.prems e show ?case by (simp add: keys_ok_def)
qed

lemma add_entries_one:
  "map_of (foldl add_entry d (dir_entries (p, cs))) q =
     (if q = p \<and> cs \<noteq> []
      then Some (foldl (\<lambda>m (k, v). AList.update k v m) (case map_of d p of None \<Rightarrow> [] | Some x \<Rightarrow> x) cs)
      else map_of d q)"
proof (induction cs arbitrary: d)
  case Nil
  then show ?case by (simp add: dir_entries_def)
next
  case (Cons e cs)
  obtain k v where e: "e = (k, v)" by force
  let ?d = "add_entry d \<lparr>ParentIno = p, Name = k, ChildIno = v\<rparr>"
  have "foldl add_entry d (dir_entries (p, e # cs)) = foldl add_entry ?d (dir_entries (p, cs))"
    by (simp add: dir_entries_def e)
  then show ?case
    using Cons.IH [of ?d] by (cases "cs = []") (simp_all add: add_entry_def Let_def e dir_entries_def)
qed

lemma add_entries_all:
  assumes "keys_ok ds" and "\<And>p. p \<in> fst ` set ds \<Longrightarrow> map_of d p = None"
    and "\<And>x. x \<in> set ds \<Longrightarrow> keys_ok (snd x)"
  shows "map_of (foldl add_entry d (concat (map dir_entries ds))) q =
    (case map_of ds q of None \<Rightarrow> map_of d q | Some cs \<Rightarrow> if cs = [] then None else Some cs)"
  using assms
proof (induction ds arbitrary: d)
  case Nil
  then show ?case by simp
next
  case (Cons x ds)
  obtain p cs where x: "x = (p, cs)" by force
  let ?d = "foldl add_entry d (dir_entries (p, cs))"
  have p: "map_of d p = None" and cs: "keys_ok cs" and ds: "keys_ok ds" "p \<notin> fst ` set ds"
    using Cons.prems(1) Cons.prems(2) [of p] Cons.prems(3) [of x] x by (simp_all add: keys_ok_def)
  have one: "map_of ?d q = (if q = p \<and> cs \<noteq> [] then Some cs else map_of d q)" for q
    using add_entries_one [of d p cs q] foldl_update_append [of "[]" cs] p cs by auto
  have "map_of (foldl add_entry ?d (concat (map dir_entries ds))) q =
      (case map_of ds q of None \<Rightarrow> map_of ?d q | Some cs \<Rightarrow> if cs = [] then None else Some cs)"
    using Cons.prems ds by (intro Cons.IH) (auto simp: one)
  moreover have "map_of ds p = None" using ds(2) by (simp add: map_of_eq_None_iff)
  ultimately show ?case using p by (auto simp: x one split: option.splits)
qed

lemma keys_ok_add_entries: "keys_ok d \<Longrightarrow> keys_ok (foldl add_entry d es)"
  by (induction es arbitrary: d) (auto simp: add_entry_def Let_def)

lemma ensure_dirs:
  "map_of (foldl ensure_dir d ins) q =
     (case map_of d q of
        Some cs \<Rightarrow> Some cs
      | None \<Rightarrow> if \<exists>n. (q, n) \<in> set ins \<and> FileType n = Directory then Some [] else None)"
proof (induction ins arbitrary: d)
  case Nil
  then show ?case by (simp split: option.splits)
next
  case (Cons x ins)
  obtain p n where x: "x = (p, n)" by force
  have "map_of (ensure_dir d x) q =
      (case map_of d q of Some cs \<Rightarrow> Some cs
       | None \<Rightarrow> if q = p \<and> FileType n = Directory then Some [] else None)"
    by (auto simp: ensure_dir_def x split: option.splits)
  then show ?case using Cons.IH [of "ensure_dir d x"] by (auto simp: x split: option.splits)
qed

lemma keys_ok_ensure: "keys_ok d \<Longrightarrow> keys_ok (foldl ensure_dir d ins)"
  by (induction ins arbitrary: d) (auto simp: ensure_dir_def)

section \<open>The round trip\<close>

lemma FromSnapshot_sel [simp]:
  "inodes (FromSnapshot (Snapshot_of idx) bs) = inodes idx"
  "extents (FromSnapshot (Snapshot_of idx) bs) = extents idx"
  "symlinks (FromSnapshot (Snapshot_of idx) bs) = symlinks idx"
  "xattrs (FromSnapshot (Snapshot_of idx) bs) = xattrs idx"
  "nextIno (FromSnapshot (Snapshot_of idx) bs) = nextIno idx"
  "blockSize (FromSnapshot (Snapshot_of idx) bs) = bs"
  "\<not> dirty (FromSnapshot (Snapshot_of idx) bs)" "\<not> remoteDirty (FromSnapshot (Snapshot_of idx) bs)"
  by (simp_all add: FromSnapshot_def Snapshot_of_def or_empty_def Let_def)

lemma FromSnapshot_dirs:
  assumes inv: "index_inv idx"
  shows "map_of (dirIndex (FromSnapshot (Snapshot_of idx) bs)) q = map_of (dirIndex idx) q"
proof -
  let ?d1 = "foldl add_entry [] (concat (map dir_entries (dirIndex idx)))"
  have k: "keys_ok (dirIndex idx)" "keys_ok (inodes idx)"
    using inv by (simp_all add: index_inv_def wf_keys_def)
  have cs: "keys_ok (snd x)" if "x \<in> set (dirIndex idx)" for x
  proof -
    from that k have "map_of (dirIndex idx) (fst x) = Some (snd x)" by (simp add: keys_ok_map_of_iff)
    with inv show ?thesis unfolding index_inv_def wf_keys_def by blast
  qed
  have d1: "map_of ?d1 q = (case map_of (dirIndex idx) q of None \<Rightarrow> None
      | Some cs \<Rightarrow> if cs = [] then None else Some cs)"
    using add_entries_all [OF k(1) _ cs, of "[]" q] by (simp split: option.splits)
  have "(\<exists>n. (q, n) \<in> set (inodes idx) \<and> FileType n = Directory) \<longleftrightarrow> map_of (dirIndex idx) q \<noteq> None"
    using inv k(2) unfolding index_inv_def wf_dirs_def is_dir_def
    by (simp add: keys_ok_map_of_iff)
  then show ?thesis
    using ensure_dirs [of ?d1 "inodes idx" q] d1
    by (auto simp: FromSnapshot_def Snapshot_of_def or_empty_def Let_def split: option.splits if_splits)
qed

lemma asum_map_of_cong:
  assumes "keys_ok m" and "keys_ok m'" and "map_of m = map_of m'"
  shows "asum w m = asum w m'"
proof -
  from assms have "set m = set m'" by (auto simp: keys_ok_map_of_iff [symmetric])
  moreover have "distinct m" and "distinct m'"
    using assms by (simp_all add: keys_ok_def distinct_map)
  ultimately show ?thesis by (simp add: asum_def sum_list_distinct_conv_sum_set)
qed

lemma FromSnapshot_inv:
  assumes inv: "index_inv idx"
  shows "index_inv (FromSnapshot (Snapshot_of idx) bs)" (is "index_inv ?new")
proof -
  have dirs: "map_of (dirIndex ?new) = map_of (dirIndex idx)"
    using FromSnapshot_dirs [OF inv] by blast
  have k: "keys_ok (dirIndex ?new)"
    by (simp add: FromSnapshot_def Let_def keys_ok_ensure keys_ok_add_entries)
  have r: "refs (dirIndex ?new) i = refs (dirIndex idx) i" for i
    unfolding refs_def using inv k dirs by (intro asum_map_of_cong) (simp_all add: index_inv_def wf_keys_def)
  have l: "Lookup ?new = Lookup idx" using dirs by (simp add: Lookup_def fun_eq_iff)
  have d: "is_dir ?new = is_dir idx" and f: "is_file ?new = is_file idx"
    and e: "file_extents ?new = file_extents idx"
    by (simp_all add: is_dir_def is_file_def file_extents_def fun_eq_iff)
  from inv show ?thesis unfolding index_inv_def wf_defs
    by (simp add: k dirs r l d f e)
qed

end
