(* ===== verification/Index_Spec.thy ===== *)
theory Index_Spec
  imports Index_Snapshot
begin

text \<open>
  What the index promises its callers: the step relation of its mutating
  methods, the invariant over every reachable state, and the functional
  behaviour of each operation in terms of \<^verbatim>\<open>Lookup\<close>, \<^verbatim>\<open>GetInode\<close> and the meaning
  \<open>loc\<close> of the extent lists.
\<close>

section \<open>Runs of the index\<close>

text \<open>
  One step is one successful call of a mutating method. The guards are what the
  callers provide: inode numbers and link counts have not wrapped, sizes and
  extents are in range, and a rename does not replace a file by itself. The steps of
  \<open>meta_step\<close> bring no new extents into the index.
\<close>

inductive meta_step :: "index \<Rightarrow> index \<Rightarrow> bool" where
  step_create: "nextIno idx \<noteq> - 1 \<Longrightarrow> CreateInode idx ft mode uid gid rdev now = (i, idx') \<Longrightarrow> meta_step idx idx'"
| step_add: "AddDirEntry idx p nm c now = Inr idx' \<Longrightarrow> c \<noteq> RootIno \<Longrightarrow>
    (\<And>n. GetInode idx c = Some n \<Longrightarrow> Nlink n \<noteq> - 1) \<Longrightarrow> meta_step idx idx'"
| step_remove: "RemoveDirEntry idx p nm now = Inr idx' \<Longrightarrow> meta_step idx idx'"
| step_rename: "Rename idx sp sn dp dn now = Inr idx' \<Longrightarrow> Lookup idx dp dn \<noteq> Lookup idx sp sn \<Longrightarrow>
    meta_step idx idx'"
| step_setattr: "SetAttr idx i mode uid gid sz atime mtime now = Inr idx' \<Longrightarrow>
    (\<And>s. sz = Some s \<Longrightarrow> 0 \<le> s \<and> s < 2 ^ 63) \<Longrightarrow> meta_step idx idx'"
| step_symlink: "SetSymlink idx i target now = Inr idx' \<Longrightarrow> meta_step idx idx'"
| step_setxattr: "SetXattr idx i nm val now = Inr idx' \<Longrightarrow> meta_step idx idx'"
| step_removexattr: "RemoveXattr idx i nm now = Inr idx' \<Longrightarrow> meta_step idx idx'"
| step_atime: "meta_step idx (TouchAtime idx i now)"
| step_clean: "meta_step idx (MarkClean idx)"
| step_remote_clean: "meta_step idx (MarkRemoteClean idx)"

inductive index_step :: "index \<Rightarrow> index \<Rightarrow> bool" where
  step_meta: "meta_step idx idx' \<Longrightarrow> index_step idx idx'"
| step_append: "AppendExtent idx i ext now = Inr idx' \<Longrightarrow> ext_ok ext \<Longrightarrow> index_step idx idx'"
| step_write: "WriteExtent idx i ext now = Inr idx' \<Longrightarrow> ext_ok ext \<Longrightarrow> index_step idx idx'"
| step_remap: "remap_keeps remap (LiveExtents idx) \<Longrightarrow> index_step idx (RemapExtents remap idx)"
| step_reload: "index_step idx (FromSnapshot (Snapshot_of idx) bs)"

lemma clean_inv [simp]:
  "index_inv (MarkClean idx) \<longleftrightarrow> index_inv idx" "index_inv (MarkRemoteClean idx) \<longleftrightarrow> index_inv idx"
  by (simp_all add: MarkClean_def MarkRemoteClean_def index_inv_def wf_defs is_dir_def is_file_def
      Lookup_def file_extents_def)

lemma meta_step_inv:
  assumes "meta_step idx idx'" and inv: "index_inv idx"
  shows "index_inv idx'"
  using assms(1)
proof cases
  case step_add
  then show ?thesis using AddDirEntry_inv [OF inv] by blast
next
  case step_setattr
  then show ?thesis using SetAttr_inv [OF inv] by blast
qed (use inv in \<open>auto intro: CreateInode_inv(1) RemoveDirEntry_inv Rename_inv
      SetSymlink_inv SetXattr_inv RemoveXattr_inv TouchAtime_inv\<close>)

lemma index_step_inv:
  assumes "index_step idx idx'" and inv: "index_inv idx"
  shows "index_inv idx'"
  using assms(1)
proof cases
  case step_meta
  then show ?thesis using meta_step_inv inv by blast
qed (use inv in \<open>auto intro: AppendExtent_inv WriteExtent_inv RemapExtents_inv FromSnapshot_inv\<close>)

lemma index_steps_inv: "rtranclp index_step idx idx' \<Longrightarrow> index_inv idx \<Longrightarrow> index_inv idx'"
  by (induction rule: rtranclp_induct) (auto intro: index_step_inv)

section \<open>Names\<close>

lemma put_inode_Lookup [simp]: "Lookup (put_inode i n idx) = Lookup idx"
  by (simp add: Lookup_def fun_eq_iff)

lemma modify_inode_Lookup [simp]: "Lookup (modify_inode i f idx) = Lookup idx"
  by (simp add: modify_inode_def split: option.splits)

lemma mark_dirty_Lookup [simp]: "Lookup (mark_dirty idx) = Lookup idx"
  by (simp add: Lookup_def fun_eq_iff)

lemma set_children_Lookup [simp]:
  "Lookup (set_children p cs idx) q = (if q = p then map_of cs else Lookup idx q)"
  by (simp add: Lookup_def fun_eq_iff)

lemma drop_inode_Lookup [simp]:
  "Lookup (drop_inode c idx) q = (if q = c then (\<lambda>_. None) else Lookup idx q)"
  by (simp add: Lookup_def fun_eq_iff)

lemma Lookup_children: "Lookup idx p nm = map_of (children idx p) nm"
  by (simp add: Lookup_def children_def split: option.splits)

lemma GetInode_mark [simp]: "GetInode (mark_dirty idx) = GetInode idx"
  by (simp add: GetInode_def fun_eq_iff)

lemma GetInode_modify:
  "GetInode (modify_inode i f idx) j = (if j = i then map_option f (GetInode idx j) else GetInode idx j)"
  by (simp add: GetInode_def modify_inode_def split: option.splits)

lemma GetInode_set_children [simp]: "GetInode (set_children p cs idx) = GetInode idx"
  by (simp add: GetInode_def fun_eq_iff)

lemma GetInode_drop [simp]: "GetInode (drop_inode c idx) j = (if j = c then None else GetInode idx j)"
  by (simp add: GetInode_def)

lemma AddDirEntry_Lookup:
  assumes "AddDirEntry idx p nm c now = Inr idx'"
  shows "Lookup idx p nm = None"
    and "Lookup idx' q m = (if q = p \<and> m = nm then Some c else Lookup idx q m)"
proof -
  from assms obtain cs where cs: "map_of (dirIndex idx) p = Some cs" and n: "Lookup idx p nm = None"
    and idx': "Lookup idx' = Lookup (set_children p (AList.update nm c cs) idx)"
    by (auto simp: AddDirEntry_def split: option.splits if_splits)
  show "Lookup idx p nm = None" by (rule n)
  show "Lookup idx' q m = (if q = p \<and> m = nm then Some c else Lookup idx q m)"
    by (simp add: idx' Lookup_def cs)
qed

lemma AddDirEntry_succeeds:
  assumes "index_inv idx"
  shows "(\<exists>idx'. AddDirEntry idx p nm c now = Inr idx') \<longleftrightarrow>
    is_dir idx p \<and> GetInode idx c \<noteq> None \<and> Lookup idx p nm = None"
proof (cases "is_dir idx p")
  case True
  then obtain n where n: "map_of (inodes idx) p = Some n" "FileType n = Directory" by (auto simp: is_dir_def)
  from inv_is_dir(1) [OF assms n] n True show ?thesis
    by (auto simp: AddDirEntry_def GetInode_def split: option.splits)
next
  case False
  then show ?thesis by (auto simp: AddDirEntry_def is_dir_def split: option.splits if_splits)
qed

lemma no_dir_children: "index_inv idx \<Longrightarrow> map_of (inodes idx) c = Some n \<Longrightarrow> FileType n \<noteq> Directory \<Longrightarrow> children idx c = []"
  by (simp add: inv_not_dir children_def)

lemma RemoveDirEntry_Lookup:
  assumes inv: "index_inv idx" and ok: "RemoveDirEntry idx p nm now = Inr idx'" and l: "Lookup idx p nm = Some c"
  shows "Lookup idx' q m = (if q = p \<and> m = nm then None else Lookup idx q m)"
    and "GetInode idx' c = None \<longleftrightarrow> refs (dirIndex idx) c = 1"
    and "i \<noteq> c \<Longrightarrow> i \<noteq> p \<Longrightarrow> GetInode idx' i = GetInode idx i"
proof -
  note L = inv_Lookup [OF inv l]
  from L(1) obtain n where c: "map_of (inodes idx) c = Some n" ..
  from ok l c have e: "FileType n = Directory \<Longrightarrow> children idx c = []"
    by (auto simp: RemoveDirEntry_def split: option.splits if_splits)
  with no_dir_children [OF inv c] have e': "children idx c = []" by blast
  let ?i1 = "set_children p (AList.delete nm (children idx p)) idx"
  let ?free = "Nlink n - 1 \<le> free_threshold n"
  let ?i2 = "if ?free then drop_inode c ?i1 else put_inode c (n\<lparr>Nlink := Nlink n - 1, Ctime := now\<rparr>) ?i1"
  have i: "idx' = mark_dirty (modify_inode p (touch_mc now) ?i2)"
    using ok l c e by (auto simp: RemoveDirEntry_def Let_def split: option.splits if_splits)
  have cp: "c \<noteq> p" using e' L(4) by auto
  have free: "?free \<longleftrightarrow> refs (dirIndex idx) c = 1"
    using unlink_inv(3) [OF inv l c e, of "n\<lparr>Nlink := Nlink n - 1\<rparr>"] by simp
  show "Lookup idx' q m = (if q = p \<and> m = nm then None else Lookup idx q m)"
    using cp e' by (auto simp: i Lookup_children [of idx])
  show "GetInode idx' c = None \<longleftrightarrow> refs (dirIndex idx) c = 1"
    unfolding free [symmetric] using cp c by (simp add: i GetInode_modify) (simp add: GetInode_def)
  show "i \<noteq> c \<Longrightarrow> i \<noteq> p \<Longrightarrow> GetInode idx' i = GetInode idx i"
    by (auto simp: i GetInode_modify) (auto simp: GetInode_def)
qed

lemma RemoveDirEntry_succeeds:
  assumes inv: "index_inv idx"
  shows "(\<exists>idx'. RemoveDirEntry idx p nm now = Inr idx') \<longleftrightarrow>
    (\<exists>c. Lookup idx p nm = Some c \<and> children idx c = [])"
proof (cases "Lookup idx p nm")
  case None
  then show ?thesis by (simp add: RemoveDirEntry_def split: option.splits)
next
  case (Some c)
  from inv_Lookup [OF inv Some] obtain n where c: "map_of (inodes idx) c = Some n"
    and d: "map_of (dirIndex idx) p \<noteq> None" by auto
  then have "map_of (inodes idx) p \<noteq> None" using inv_absent(1) [OF inv, of p]
    by (cases "map_of (inodes idx) p") simp_all
  with Some c no_dir_children [OF inv c] show ?thesis
    by (auto simp: RemoveDirEntry_def Let_def split: if_splits)
qed

lemma move_entry_Lookup:
  "Lookup (move_entry idx sp sn dp dn s) q m =
     (if q = dp \<and> m = dn then Some s else if q = sp \<and> m = sn then None else Lookup idx q m)"
  by (auto simp: move_entry_def Let_def Lookup_children [of idx] children_def split: option.splits)

lemma rename_unlink_dst_Lookup:
  assumes inv: "index_inv idx" and u: "rename_unlink_dst idx dp dn = Inr idx1"
  shows "Lookup idx1 = Lookup idx" and "children idx1 p = children idx p"
proof -
  have "Lookup idx1 = Lookup idx \<and> children idx1 p = children idx p"
    using u
  proof (cases rule: rename_dst_cases)
    case (freed c n)
    with no_dir_children [OF inv, of c n] have e: "children idx c = []" by blast
    have "Lookup idx1 q m = Lookup idx q m" for q m
      using e by (simp add: freed Lookup_children [of idx])
    moreover have "children idx1 p = children idx p"
      using e by (auto simp: freed children_def split: option.splits)
    ultimately show ?thesis by blast
  qed (auto simp: children_def)
  then show "Lookup idx1 = Lookup idx" and "children idx1 p = children idx p" by simp_all
qed

lemma Rename_Lookup:
  assumes inv: "index_inv idx" and ok: "Rename idx sp sn dp dn now = Inr idx'"
    and src: "Lookup idx sp sn = Some s" and ne: "Lookup idx dp dn \<noteq> Some s"
  shows "Lookup idx' q m =
      (if q = dp \<and> m = dn then Some s else if q = sp \<and> m = sn then None else Lookup idx q m)"
proof -
  from Rename_ok_dst [OF ok] obtain idx1 where u: "rename_unlink_dst idx dp dn = Inr idx1" ..
  have idx': "Lookup idx' = Lookup (move_entry idx1 sp sn dp dn s)"
    using Rename_shape(2) [OF ok src u Rename_moved(2) [OF inv ok src ne u]] by (simp add: fun_eq_iff)
  show ?thesis unfolding idx' move_entry_Lookup rename_unlink_dst_Lookup [OF inv u] ..
qed

text \<open>
  When the destination is the last link of the source itself, \<^verbatim>\<open>Rename\<close> releases
  the inode and then restores the name, which is left pointing at nothing.
\<close>

lemma Rename_self_frees:
  assumes inv: "index_inv idx" and src: "Lookup idx sp sn = Some s" and s: "GetInode idx s = Some n"
    and f: "FileType n \<noteq> Directory" and n1: "Nlink n = 1"
  shows "\<exists>idx'. Rename idx sp sn sp sn now = Inr idx' \<and> Lookup idx' sp sn = Some s \<and> GetInode idx' s = None"
proof -
  note L = inv_Lookup [OF inv src]
  have c: "children idx s = []" using no_dir_children [OF inv _ f] s by (simp add: GetInode_def)
  then have ne: "s \<noteq> sp" using L(4) by auto
  have "rename_unlink_dst idx sp sn = Inr (drop_inode s idx)"
    using src s f n1 by (simp add: rename_unlink_dst_def GetInode_def free_threshold_def Let_def)
  then show ?thesis
    using src s ne L(3) by (simp add: Rename_def Let_def GetInode_modify) (simp add: GetInode_def)
qed

section \<open>No run-time panic\<close>

lemma AddDirEntry_no_panic: "index_inv idx \<Longrightarrow> AddDirEntry idx p nm c now \<noteq> Inl IndexPanic"
  using inv_is_dir(1) [of idx p] by (auto simp: AddDirEntry_def split: option.splits)

lemma RemoveDirEntry_no_panic: "index_inv idx \<Longrightarrow> RemoveDirEntry idx p nm now \<noteq> Inl IndexPanic"
  using inv_Lookup(1) [of idx p nm] by (auto simp: RemoveDirEntry_def Let_def split: option.splits)

lemma rename_unlink_dst_no_panic: "index_inv idx \<Longrightarrow> rename_unlink_dst idx p nm \<noteq> Inl IndexPanic"
  using inv_Lookup(1) [of idx p nm] by (auto simp: rename_unlink_dst_def Let_def split: option.splits)

lemma Rename_no_panic:
  assumes inv: "index_inv idx" and d: "is_dir idx dp"
  shows "Rename idx sp sn dp dn now \<noteq> Inl IndexPanic"
proof (cases "Lookup idx sp sn")
  case None
  then show ?thesis by (simp add: Rename_def)
next
  case (Some s)
  from inv_Lookup(1) [OF inv Some] have s: "map_of (inodes idx) s \<noteq> None" by blast
  show ?thesis
  proof (cases "rename_unlink_dst idx dp dn")
    case (Inl e)
    with rename_unlink_dst_no_panic [OF inv, of dp dn] Some show ?thesis by (simp add: Rename_def)
  next
    case (Inr idx1)
    from d obtain n where n: "map_of (inodes idx) dp = Some n" "FileType n = Directory" by (auto simp: is_dir_def)
    note D = inv_is_dir(1) [OF inv n]
    from Inr have "map_of (dirIndex idx1) dp \<noteq> None"
    proof (cases rule: rename_dst_cases)
      case (freed c n)
      with no_dir_children [OF inv, of c n] have "children idx c = []" by blast
      with freed(1) have "c \<noteq> dp" by (auto simp: Lookup_children)
      with D freed show ?thesis by simp
    qed (use D in simp_all)
    with Some Inr s show ?thesis by (auto simp: Rename_def Let_def split: option.splits)
  qed
qed

section \<open>Data\<close>

text \<open>The place of byte \<open>b\<close> of file \<open>i\<close>; \<open>None\<close> is a hole.\<close>

definition file_loc :: "index \<Rightarrow> ino \<Rightarrow> int \<Rightarrow> (string \<times> int) option" where
  "file_loc idx i = loc (file_extents idx i)"

lemma inv_exts_ok:
  assumes "index_inv idx"
  shows "e \<in> set (file_extents idx i) \<Longrightarrow> ext_ok e"
proof -
  assume e: "e \<in> set (file_extents idx i)"
  then have "map_of (extents idx) i \<noteq> None" by (cases "map_of (extents idx) i") (simp_all add: file_extents_def)
  with assms have "is_file idx i" unfolding index_inv_def wf_files_def by blast
  then obtain n where "map_of (inodes idx) i = Some n" and "FileType n = Regular" by (auto simp: is_file_def)
  from inv_file(3) [OF assms this] e show ?thesis by (simp add: exts_ok_def)
qed

lemma file_extents_put [simp]: "file_extents (put_inode i n idx) = file_extents idx"
  by (simp add: file_extents_def fun_eq_iff)

lemma file_extents_mark [simp]: "file_extents (mark_dirty idx) = file_extents idx"
  by (simp add: file_extents_def fun_eq_iff)

lemma file_extents_upd [simp]:
  "file_extents (idx\<lparr>extents := AList.update i es m\<rparr>) j =
     (if j = i then es else file_extents (idx\<lparr>extents := m\<rparr>) j)"
  by (simp add: file_extents_def)

lemma file_extents_same [simp]: "file_extents (idx\<lparr>extents := extents idx\<rparr>) = file_extents idx"
  by (simp add: file_extents_def)

lemma WriteExtent_succeeds: "(\<exists>idx'. WriteExtent idx i ext now = Inr idx') \<longleftrightarrow> is_file idx i"
  by (auto simp: WriteExtent_def is_file_def Let_def split: option.splits)

lemma WriteExtent_cases:
  assumes ok: "WriteExtent idx i ext now = Inr idx'" and ext: "ext_ok ext"
  obtains n where "GetInode idx i = Some n" and "FileType n = Regular"
    and "\<And>j. GetInode idx' j = (if j = i then
          Some (touch_mc now (grow (FileOffset ext + Length ext) n)) else GetInode idx j)"
    and "\<And>j. file_extents idx' j = (if j = i then write_extents ext (file_extents idx i) else file_extents idx j)"
    and "Lookup idx' = Lookup idx"
proof -
  from ok obtain n where n: "map_of (inodes idx) i = Some n" "FileType n = Regular"
    and idx': "idx' = mark_dirty (put_inode i (touch_mc now (grow (i64 (FileOffset ext + Length ext)) n))
      (idx\<lparr>extents := AList.update i (write_extents ext (file_extents idx i)) (extents idx)\<rparr>))"
    by (auto simp: WriteExtent_def Let_def split: option.splits if_splits)
  have e: "i64 (FileOffset ext + Length ext) = FileOffset ext + Length ext"
    using ext by (simp add: ext_ok_def i64_simps)
  show ?thesis
    by (rule that [of n]) (use n in \<open>simp_all add: idx' e GetInode_def Lookup_def fun_eq_iff\<close>)
qed

lemma WriteExtent_loc:
  assumes inv: "index_inv idx" and ok: "WriteExtent idx i ext now = Inr idx'" and ext: "ext_ok ext"
    and safe: "split_safe ext (file_extents idx i)"
  shows "file_loc idx' j b =
    (if j = i \<and> covers ext b then Some (ext_loc ext b) else file_loc idx j b)"
  using WriteExtent_cases [OF ok ext]
proof cases
  case (1 n)
  have "\<forall>e \<in> set (file_extents idx i). ext_ok e" using inv_exts_ok [OF inv] by blast
  with ext safe show ?thesis by (simp add: file_loc_def 1(4) write_extents_loc)
qed

lemma SetAttr_size:
  assumes inv: "index_inv idx" and n: "GetInode idx i = Some n" and f: "FileType n = Regular"
    and s: "0 \<le> s" "s < 2 ^ 63"
  obtains idx' m where "SetAttr idx i mode uid gid (Some s) atime mtime now = Inr idx'"
    and "GetInode idx' i = Some m" and "Size m = s" and "FileType m = Regular"
    and "\<And>j b. file_loc idx' j b = (if j = i \<and> s \<le> b then None else file_loc idx j b)"
    and "\<And>j. j \<noteq> i \<Longrightarrow> GetInode idx' j = GetInode idx j"
proof -
  let ?m = "attr_inode mode uid gid atime mtime n"
  note F = inv_file [OF inv _ f, of i]
  have i: "map_of (inodes idx) i = Some n" using n by (simp add: GetInode_def)
  show ?thesis
  proof (cases "s = Size n")
    case True
    have beyond: "loc (file_extents idx i) b = None" if "s \<le> b" for b
      using F(3) [OF i] that True by (force simp: loc_None_iff exts_ok_def covers_def)
    have "SetAttr idx i mode uid gid (Some s) atime mtime now = Inr (mark_dirty (put_inode i (?m\<lparr>Ctime := now\<rparr>) idx))"
      using n True by (simp add: SetAttr_eq Let_def)
    then show ?thesis
      by (rule that [of _ "?m\<lparr>Ctime := now\<rparr>"]) (use f True beyond in \<open>auto simp: GetInode_def file_loc_def\<close>)
  next
    case False
    let ?m' = "?m\<lparr>Size := s, Blocks := blocks512 s, Mtime := now, Ctime := now\<rparr>"
    have "SetAttr idx i mode uid gid (Some s) atime mtime now = Inr (mark_dirty (put_inode i ?m' (trimExtents i s idx)))"
      using n False f by (simp add: SetAttr_eq Let_def)
    moreover have "loc (trim_loop s (file_extents idx i)) b = (if b < s then loc (file_extents idx i) b else None)" for b
      using inv_exts_ok [OF inv] s by (intro trim_loop_loc) auto
    ultimately show ?thesis
      by (intro that [of "mark_dirty (put_inode i ?m' (trimExtents i s idx))" ?m']) (use f in \<open>auto simp: GetInode_def file_loc_def trimExtents_def\<close>)
  qed
qed

section \<open>Listings\<close>

lemma Readdir_entries:
  assumes inv: "index_inv idx" and d: "is_dir idx p"
  obtains es where "Readdir idx p = Inr es" and "distinct (map Name es)"
    and "\<And>e. e \<in> set es \<longleftrightarrow> ParentIno e = p \<and> Lookup idx p (Name e) = Some (ChildIno e)"
proof -
  from d obtain n where n: "map_of (inodes idx) p = Some n" "FileType n = Directory" by (auto simp: is_dir_def)
  note D = inv_is_dir [OF inv n]
  let ?es = "dir_entries (p, children idx p)"
  have names: "map Name ?es = map fst (children idx p)"
    by (simp add: dir_entries_def comp_def split_def)
  have mem: "e \<in> set ?es \<longleftrightarrow> ParentIno e = p \<and> (Name e, ChildIno e) \<in> set (children idx p)" for e
    by (cases e) (force simp: dir_entries_def)
  show ?thesis
    by (rule that [of ?es]) (use n D(2) in \<open>simp_all add: Readdir_def names keys_ok_def mem
        Lookup_children map_of_eq_Some_iff\<close>)
qed

lemma GetParentIno_names:
  assumes inv: "index_inv idx" and l: "Lookup idx p nm = Some i"
  shows "\<exists>nm'. Lookup idx (GetParentIno idx i) nm' = Some i"
proof -
  note L = inv_Lookup [OF inv l]
  have k: "keys_ok (dirIndex idx)" using inv by (simp add: index_inv_def wf_keys_def)
  have mem: "(p, children idx p) \<in> set (dirIndex idx)" "i \<in> snd ` set (children idx p)"
    using L(3,4) by (auto dest: map_of_SomeD intro: image_eqI [of _ _ "(nm, i)"])
  then obtain q cs where fnd: "find (\<lambda>(p, cs). i \<in> set (map snd cs)) (dirIndex idx) = Some (q, cs)"
    by (cases "find (\<lambda>(p, cs). i \<in> set (map snd cs)) (dirIndex idx)") (auto simp: find_None_iff)
  then have q: "(q, cs) \<in> set (dirIndex idx)" and ics: "i \<in> snd ` set cs"
    by (auto simp: find_Some_iff in_set_conv_nth)
  from q k have dq: "map_of (dirIndex idx) q = Some cs" by (simp add: keys_ok_map_of_iff)
  with inv have "keys_ok cs" unfolding index_inv_def wf_keys_def by blast
  with ics obtain nm' where "map_of cs nm' = Some i" by (auto simp: keys_ok_map_of_iff)
  then show ?thesis using L(2) fnd dq by (auto simp: GetParentIno_def Lookup_def)
qed

section \<open>Extended attributes\<close>

lemma GetXattrs_upd [simp]:
  "GetXattrs (mark_dirty (put_inode i n (idx\<lparr>xattrs := AList.update i a (xattrs idx)\<rparr>))) j =
     (if j = i then a else GetXattrs idx j)"
  by (simp add: GetXattrs_def)

lemma SetXattr_get:
  assumes "SetXattr idx i nm v now = Inr idx'"
  shows "map_of (GetXattrs idx' j) k = (if j = i \<and> k = nm then Some v else map_of (GetXattrs idx j) k)"
  using assms by (auto simp: SetXattr_def split: option.splits)

lemma RemoveXattr_get:
  assumes "RemoveXattr idx i nm now = Inr idx'"
  shows "map_of (GetXattrs idx' j) k = (if j = i \<and> k = nm then None else map_of (GetXattrs idx j) k)"
  using assms by (auto simp: RemoveXattr_def split: option.splits if_splits)

end
