(* ===== verification/Go_OS.thy ===== *)
theory Go_OS
  imports Go_Fmt "HOL-Library.List_Lexorder" "HOL-Library.Char_ord"
begin

text \<open>
  The file system calls of Go's \<^verbatim>\<open>os\<close> and \<^verbatim>\<open>path/filepath\<close> packages that the
  program uses. A cleaned path is its list of components. A call first takes one
  entry of the fault schedule: \<open>Pass\<close> (also when the schedule is used up) lets
  it proceed, \<open>Refuse\<close> makes it fail without effect, and \<open>Partial k\<close> makes a write
  fail after \<open>k\<close> bytes have reached the file and any other call fail without
  effect. Theorems that hold for every schedule hold for every pattern of I/O
  errors.
\<close>

section \<open>State\<close>

type_synonym path = "string list"

datatype fault = Pass | Refuse | Partial nat

datatype oserror = ENOENT | EIO

record osfs =
  files :: "(path, bytes) gomap"
  dirs :: "path list"
  dirSize :: int
  faults :: "fault list"

definition os_tick :: "osfs \<Rightarrow> fault \<times> osfs" where
  "os_tick fs = (case faults fs of [] \<Rightarrow> (Pass, fs) | f # r \<Rightarrow> (f, fs\<lparr>faults := r\<rparr>))"

section \<open>Paths\<close>

text \<open>\<^verbatim>\<open>filepath.Join(dir, s)\<close> for an absolute \<^verbatim>\<open>dir\<close>: split at slashes, then clean.\<close>

fun split_slash :: "string \<Rightarrow> string list" where
  "split_slash [] = [[]]"
| "split_slash (c # s) =
     (if c = CHR ''/'' then [] # split_slash s
      else (case split_slash s of [] \<Rightarrow> [[c]] | x # xs \<Rightarrow> (c # x) # xs))"

definition path_step :: "path \<Rightarrow> string \<Rightarrow> path" where
  "path_step p c = (if c = '''' \<or> c = ''.'' then p else if c = ''..'' then butlast p else p @ [c])"

definition Join :: "path \<Rightarrow> string \<Rightarrow> path" where
  "Join dir s = foldl path_step dir (split_slash s)"

definition path_suffix :: "path \<Rightarrow> string \<Rightarrow> path" where
  "path_suffix p s = butlast p @ [last p @ s]"

definition plain_name :: "string \<Rightarrow> bool" where
  "plain_name s \<longleftrightarrow> CHR ''/'' \<notin> set s \<and> s \<noteq> '''' \<and> s \<noteq> ''.'' \<and> s \<noteq> ''..''"

section \<open>Calls\<close>

definition writable :: "path \<Rightarrow> osfs \<Rightarrow> bool" where
  "writable p fs \<longleftrightarrow> p \<noteq> [] \<and> butlast p \<in> set (dirs fs) \<and> p \<notin> set (dirs fs)"

definition put_file :: "path \<Rightarrow> bytes \<Rightarrow> osfs \<Rightarrow> osfs" where
  "put_file p d fs = fs\<lparr>files := AList.update p d (files fs)\<rparr>"

definition WriteFile :: "path \<Rightarrow> bytes \<Rightarrow> osfs \<Rightarrow> (oserror + unit) \<times> osfs" where
  "WriteFile p d fs0 =
     (let (f, fs) = os_tick fs0
      in if f = Refuse then (Inl EIO, fs)
         else if \<not> writable p fs then (Inl ENOENT, fs)
         else (case f of
                 Partial k \<Rightarrow> (Inl EIO, put_file p (take k d) fs)
               | _ \<Rightarrow> (Inr (), put_file p d fs)))"

definition os_Rename :: "path \<Rightarrow> path \<Rightarrow> osfs \<Rightarrow> (oserror + unit) \<times> osfs" where
  "os_Rename src dst fs0 =
     (let (f, fs) = os_tick fs0
      in if f \<noteq> Pass then (Inl EIO, fs)
         else (case map_of (files fs) src of
                 None \<Rightarrow> (Inl ENOENT, fs)
               | Some d \<Rightarrow>
                   if \<not> writable dst fs then (Inl EIO, fs)
                   else (Inr (), put_file dst d (fs\<lparr>files := AList.delete src (files fs)\<rparr>))))"

definition os_Remove :: "path \<Rightarrow> osfs \<Rightarrow> (oserror + unit) \<times> osfs" where
  "os_Remove p fs0 =
     (let (f, fs) = os_tick fs0
      in if f \<noteq> Pass then (Inl EIO, fs)
         else if map_of (files fs) p \<noteq> None
              then (Inr (), fs\<lparr>files := AList.delete p (files fs)\<rparr>)
         else if p \<notin> set (dirs fs) then (Inl ENOENT, fs)
         else if p = [] \<or> (\<exists>q \<in> set (dirs fs) \<union> fst ` set (files fs). q \<noteq> [] \<and> butlast q = p)
              then (Inl EIO, fs)
         else (Inr (), fs\<lparr>dirs := removeAll p (dirs fs)\<rparr>))"

text \<open>
  An open file is its content at the time of the call: the program replaces files
  by rename and never writes into one that can be open. \<open>None\<close> is a directory.
\<close>

definition os_Open :: "path \<Rightarrow> osfs \<Rightarrow> (oserror + bytes option) \<times> osfs" where
  "os_Open p fs0 =
     (let (f, fs) = os_tick fs0
      in if f \<noteq> Pass then (Inl EIO, fs)
         else (case map_of (files fs) p of
                 Some d \<Rightarrow> (Inr (Some d), fs)
               | None \<Rightarrow> if p \<in> set (dirs fs) then (Inr None, fs) else (Inl ENOENT, fs)))"

text \<open>\<^verbatim>\<open>f.ReadAt(buf, off)\<close> with \<^verbatim>\<open>len(buf) = n\<close>: a short read is an error.\<close>

definition ReadAt :: "bytes option \<Rightarrow> int \<Rightarrow> int \<Rightarrow> osfs \<Rightarrow> (oserror + bytes) \<times> osfs" where
  "ReadAt h off n fs0 =
     (let (f, fs) = os_tick fs0
      in if f \<noteq> Pass \<or> off < 0 then (Inl EIO, fs)
         else if n = 0 then (Inr [], fs)
         else (case h of
                 None \<Rightarrow> (Inl EIO, fs)
               | Some d \<Rightarrow> if off + n \<le> int (length d) then (Inr (byte_slice off n d), fs)
                           else (Inl EIO, fs)))"

definition ReadFile :: "path \<Rightarrow> osfs \<Rightarrow> (oserror + bytes) \<times> osfs" where
  "ReadFile p fs0 =
     (let (f, fs) = os_tick fs0
      in if f \<noteq> Pass then (Inl EIO, fs)
         else (case map_of (files fs) p of
                 Some d \<Rightarrow> (Inr d, fs)
               | None \<Rightarrow> (Inl (if p \<in> set (dirs fs) then EIO else ENOENT), fs)))"

definition os_Stat_Size :: "path \<Rightarrow> osfs \<Rightarrow> (oserror + int) \<times> osfs" where
  "os_Stat_Size p fs0 =
     (let (f, fs) = os_tick fs0
      in if f \<noteq> Pass then (Inl EIO, fs)
         else (case map_of (files fs) p of
                 Some d \<Rightarrow> (Inr (int (length d)), fs)
               | None \<Rightarrow> if p \<in> set (dirs fs) then (Inr (dirSize fs), fs) else (Inl ENOENT, fs)))"

text \<open>\<^verbatim>\<open>os.ReadDir\<close>: the entries sorted by name, with the \<^verbatim>\<open>IsDir\<close> flag.\<close>

definition entry_names :: "path \<Rightarrow> path list \<Rightarrow> string list" where
  "entry_names dir ps = map last (filter (\<lambda>q. q \<noteq> [] \<and> butlast q = dir) ps)"

definition ReadDir :: "path \<Rightarrow> osfs \<Rightarrow> (oserror + (string \<times> bool) list) \<times> osfs" where
  "ReadDir dir fs0 =
     (let (f, fs) = os_tick fs0
      in if f \<noteq> Pass then (Inl EIO, fs)
         else if dir \<notin> set (dirs fs) then (Inl ENOENT, fs)
         else (Inr (sort_key fst (map (\<lambda>x. (x, False)) (entry_names dir (map fst (files fs)))
                 @ map (\<lambda>x. (x, True)) (entry_names dir (remdups (dirs fs))))), fs))"

definition MkdirAll :: "path \<Rightarrow> osfs \<Rightarrow> (oserror + unit) \<times> osfs" where
  "MkdirAll dir fs0 =
     (let (f, fs) = os_tick fs0
      in if f \<noteq> Pass \<or> (\<exists>q \<in> set (prefixes dir). map_of (files fs) q \<noteq> None) then (Inl EIO, fs)
         else (Inr (), fs\<lparr>dirs := prefixes dir @ dirs fs\<rparr>))"

section \<open>Facts\<close>

lemma split_slash_plain: "CHR ''/'' \<notin> set s \<Longrightarrow> split_slash s = [s]"
  by (induction s) auto

lemma Join_plain [simp]: "plain_name s \<Longrightarrow> Join dir s = dir @ [s]"
  by (simp add: Join_def plain_name_def split_slash_plain path_step_def)

lemma path_suffix_snoc [simp]: "path_suffix (p @ [a]) s = p @ [a @ s]"
  by (simp add: path_suffix_def)

lemma os_tick_keeps:
  "os_tick fs = (f, fs') \<Longrightarrow> files fs' = files fs \<and> dirs fs' = dirs fs \<and> dirSize fs' = dirSize fs"
  by (auto simp: os_tick_def split: list.splits)

lemma os_tick_quiet [simp]: "faults fs = [] \<Longrightarrow> os_tick fs = (Pass, fs)"
  by (simp add: os_tick_def)

lemma put_file_sel [simp]:
  "files (put_file p d fs) = AList.update p d (files fs)" "dirs (put_file p d fs) = dirs fs"
  "faults (put_file p d fs) = faults fs"
  by (simp_all add: put_file_def)

text \<open>What a sequence of calls can do to the files: reads change nothing.\<close>

lemma read_calls_keep:
  "os_Open p fs = (r1, fs') \<Longrightarrow> files fs' = files fs \<and> dirs fs' = dirs fs"
  "ReadAt h off n fs = (r2, fs') \<Longrightarrow> files fs' = files fs \<and> dirs fs' = dirs fs"
  "ReadFile p fs = (r3, fs') \<Longrightarrow> files fs' = files fs \<and> dirs fs' = dirs fs"
  "os_Stat_Size p fs = (r4, fs') \<Longrightarrow> files fs' = files fs \<and> dirs fs' = dirs fs"
  "ReadDir p fs = (r5, fs') \<Longrightarrow> files fs' = files fs \<and> dirs fs' = dirs fs"
  by (auto simp: os_Open_def ReadAt_def ReadFile_def os_Stat_Size_def ReadDir_def Let_def
      split: prod.splits option.splits if_splits dest!: os_tick_keeps)

lemma WriteFile_cases:
  assumes "WriteFile p d fs = (r, fs')"
  obtains (ok) "r = Inr ()" "files fs' = AList.update p d (files fs)" "dirs fs' = dirs fs" "writable p fs"
  | (fail) e where "r = Inl e" "files fs' = files fs" "dirs fs' = dirs fs"
  | (part) e k where "r = Inl e" "files fs' = AList.update p (take k d) (files fs)" "dirs fs' = dirs fs"
  using assms
  by (auto simp: WriteFile_def Let_def writable_def split: prod.splits if_splits fault.splits dest!: os_tick_keeps)

lemma os_Rename_cases:
  assumes "os_Rename src dst fs = (r, fs')"
  obtains (ok) d where "r = Inr ()" "map_of (files fs) src = Some d"
      "files fs' = AList.update dst d (AList.delete src (files fs))" "dirs fs' = dirs fs"
  | (fail) e where "r = Inl e" "files fs' = files fs" "dirs fs' = dirs fs"
  using assms
  by (auto simp: os_Rename_def Let_def split: prod.splits option.splits if_splits dest!: os_tick_keeps)

end
