(* ===== verification/Wire.thy ===== *)
theory Wire
  imports Index_Spec Go_OS
begin

text \<open>
  \<^verbatim>\<open>internal/index/persist.go\<close>: the wire form of a snapshot, its conversion in both
  directions, and saving and loading it. The CBOR codec is the third-party package
  \<^verbatim>\<open>fxamacker/cbor\<close>; its \<^verbatim>\<open>Marshal\<close> and \<^verbatim>\<open>Unmarshal\<close> at the type \<^verbatim>\<open>cborSnapshot\<close> are the
  parameters \<open>cborEnc\<close> and \<open>cborDec\<close>.

  The wire form stores a chunk identifier as its 32-bit sequence number, so only
  identifiers of the form \<^verbatim>\<open>chunk-NNNNNNNN\<close> can be persisted.
\<close>

section \<open>Wire types\<close>

record cborInode =
  wIno :: u64
  wFileType :: u32
  wMode :: u32
  wNlink :: u32
  wUID :: u32
  wGID :: u32
  wSize :: int
  wAtime :: int
  wMtime :: int
  wCtime :: int
  wBlksize :: int
  wBlocks :: int
  wRdev :: u32

record cborExtent =
  wChunkSeq :: u32
  wChunkOffset :: int
  wLength :: int
  wFileOffset :: int

record cborDirEntry =
  wParentIno :: u64
  wName :: string
  wChildIno :: u64

record cborSnapshot =
  wInodes :: "(u64, cborInode) gomap"
  wDirEntries :: "cborDirEntry list"
  wExtentMap :: "(u64, cborExtent list) gomap"
  wSymlinkTargets :: "(u64, string) gomap option"
  wXattrs :: "(u64, (string, string) gomap) gomap option"
  wNextIno :: u64

datatype perror = BadChunkID string | MarshalFailed | UnmarshalFailed | OSFailed oserror

section \<open>Chunk identifiers\<close>

definition snapshotFile :: string where "snapshotFile = ''index.cbor''"
definition chunkIDPrefix :: string where "chunkIDPrefix = ''chunk-''"

definition parseChunkSeq :: "string \<Rightarrow> perror + u32" where
  "parseChunkSeq i =
     (if \<not> HasPrefix i chunkIDPrefix then Inl (BadChunkID i)
      else (case scan_uint32 (drop (length chunkIDPrefix) i) of
              None \<Rightarrow> Inl (BadChunkID i)
            | Some s \<Rightarrow> Inr s))"

definition chunkSeqToID :: "u32 \<Rightarrow> string" where
  "chunkSeqToID s = chunkIDPrefix @ fmt_08d (uint s)"

section \<open>Conversion\<close>

definition to_wire_inode :: "Inode \<Rightarrow> cborInode" where
  "to_wire_inode n = \<lparr>wIno = Ino n, wFileType = FileType n, wMode = Mode n, wNlink = Nlink n, wUID = UID n,
     wGID = GID n, wSize = Size n, wAtime = Atime n, wMtime = Mtime n, wCtime = Ctime n,
     wBlksize = Blksize n, wBlocks = Blocks n, wRdev = Rdev n\<rparr>"

definition from_wire_inode :: "cborInode \<Rightarrow> Inode" where
  "from_wire_inode w = \<lparr>Ino = wIno w, FileType = wFileType w, Mode = wMode w, Nlink = wNlink w, UID = wUID w,
     GID = wGID w, Size = wSize w, Atime = wAtime w, Mtime = wMtime w, Ctime = wCtime w,
     Blksize = wBlksize w, Blocks = wBlocks w, Rdev = wRdev w\<rparr>"

definition to_wire_entry :: "DirEntry \<Rightarrow> cborDirEntry" where
  "to_wire_entry e = \<lparr>wParentIno = ParentIno e, wName = Name e, wChildIno = ChildIno e\<rparr>"

definition from_wire_entry :: "cborDirEntry \<Rightarrow> DirEntry" where
  "from_wire_entry w = \<lparr>ParentIno = wParentIno w, Name = wName w, ChildIno = wChildIno w\<rparr>"

fun to_wire_exts :: "Extent list \<Rightarrow> perror + cborExtent list" where
  "to_wire_exts [] = Inr []"
| "to_wire_exts (e # es) =
     (case parseChunkSeq (ChunkID e) of
        Inl err \<Rightarrow> Inl err
      | Inr s \<Rightarrow>
          (case to_wire_exts es of
             Inl err \<Rightarrow> Inl err
           | Inr ws \<Rightarrow> Inr (\<lparr>wChunkSeq = s, wChunkOffset = ChunkOffset e, wLength = Length e,
                            wFileOffset = FileOffset e\<rparr> # ws)))"

definition from_wire_ext :: "cborExtent \<Rightarrow> Extent" where
  "from_wire_ext w = \<lparr>ChunkID = chunkSeqToID (wChunkSeq w), ChunkOffset = wChunkOffset w,
     Length = wLength w, FileOffset = wFileOffset w\<rparr>"

fun to_wire_extent_map :: "(u64, Extent list) gomap \<Rightarrow> perror + (u64, cborExtent list) gomap" where
  "to_wire_extent_map [] = Inr []"
| "to_wire_extent_map ((i, es) # m) =
     (case to_wire_exts es of
        Inl err \<Rightarrow> Inl err
      | Inr ws \<Rightarrow> (case to_wire_extent_map m of Inl err \<Rightarrow> Inl err | Inr wm \<Rightarrow> Inr ((i, ws) # wm)))"

definition toWireSnapshot :: "Snapshot \<Rightarrow> perror + cborSnapshot" where
  "toWireSnapshot snap =
     (case to_wire_extent_map (or_empty (ExtentMap snap)) of
        Inl err \<Rightarrow> Inl err
      | Inr wm \<Rightarrow>
          Inr \<lparr>wInodes = map (\<lambda>(i, n). (i, to_wire_inode n)) (or_empty (Inodes snap)),
               wDirEntries = map to_wire_entry (DirEntries snap), wExtentMap = wm,
               wSymlinkTargets = SymlinkTargets snap, wXattrs = Xattrs snap, wNextIno = NextIno snap\<rparr>)"

definition fromWireSnapshot :: "cborSnapshot \<Rightarrow> Snapshot" where
  "fromWireSnapshot ws =
     \<lparr>Inodes = Some (map (\<lambda>(i, w). (i, from_wire_inode w)) (wInodes ws)),
      DirEntries = map from_wire_entry (wDirEntries ws),
      ExtentMap = Some (map (\<lambda>(i, es). (i, map from_wire_ext es)) (wExtentMap ws)),
      SymlinkTargets = wSymlinkTargets ws, Xattrs = wXattrs ws, NextIno = wNextIno ws\<rparr>"

section \<open>Saving and loading\<close>

type_synonym encoder = "cborSnapshot \<Rightarrow> bytes option"
type_synonym decoder = "bytes \<Rightarrow> cborSnapshot option"

definition Marshal :: "encoder \<Rightarrow> index \<Rightarrow> perror + bytes" where
  "Marshal cborEnc idx =
     (case toWireSnapshot (Snapshot_of idx) of
        Inl err \<Rightarrow> Inl err
      | Inr wire \<Rightarrow> (case cborEnc wire of None \<Rightarrow> Inl MarshalFailed | Some d \<Rightarrow> Inr d))"

definition Unmarshal :: "decoder \<Rightarrow> bytes \<Rightarrow> int \<Rightarrow> perror + index" where
  "Unmarshal cborDec data bs =
     (case cborDec data of
        None \<Rightarrow> Inl UnmarshalFailed
      | Some ws \<Rightarrow> Inr (FromSnapshot (fromWireSnapshot ws) bs))"

definition Save :: "encoder \<Rightarrow> index \<Rightarrow> path \<Rightarrow> osfs \<Rightarrow> (perror + unit) \<times> index \<times> osfs" where
  "Save cborEnc idx dir fs =
     (case toWireSnapshot (Snapshot_of idx) of
        Inl err \<Rightarrow> (Inl err, idx, fs)
      | Inr wire \<Rightarrow>
          (case cborEnc wire of
             None \<Rightarrow> (Inl MarshalFailed, idx, fs)
           | Some data \<Rightarrow>
               (case MkdirAll dir fs of
                  (Inl e, fs1) \<Rightarrow> (Inl (OSFailed e), idx, fs1)
                | (Inr _, fs1) \<Rightarrow>
                    let tmp = Join dir (snapshotFile @ ''.tmp''); dst = Join dir snapshotFile
                    in (case WriteFile tmp data fs1 of
                          (Inl e, fs2) \<Rightarrow> (Inl (OSFailed e), idx, fs2)
                        | (Inr _, fs2) \<Rightarrow>
                            (case os_Rename tmp dst fs2 of
                               (Inl e, fs3) \<Rightarrow> (Inl (OSFailed e), idx, fs3)
                             | (Inr _, fs3) \<Rightarrow> (Inr (), MarkClean idx, fs3))))))"

definition Load :: "decoder \<Rightarrow> path \<Rightarrow> int \<Rightarrow> osfs \<Rightarrow> (perror + index) \<times> osfs" where
  "Load cborDec dir bs fs =
     (case ReadFile (Join dir snapshotFile) fs of
        (Inl e, fs1) \<Rightarrow> (Inl (OSFailed e), fs1)
      | (Inr data, fs1) \<Rightarrow>
          (case cborDec data of
             None \<Rightarrow> (Inl UnmarshalFailed, fs1)
           | Some ws \<Rightarrow> (Inr (FromSnapshot (fromWireSnapshot ws) bs), fs1)))"

end
