(* ===== verification/Persist.thy ===== *)
theory Persist
  imports Wire
begin

text \<open>
  What persistence promises: the wire form determines the snapshot, saving is atomic
  under every pattern of I/O errors, and loading restores the index that was saved.
\<close>

section \<open>Identifiers that can be persisted\<close>

definition persistable :: "string \<Rightarrow> bool" where
  "persistable i \<longleftrightarrow> (case parseChunkSeq i of Inl _ \<Rightarrow> False | Inr s \<Rightarrow> chunkSeqToID s = i)"

lemma parse_chunkSeqToID [simp]: "parseChunkSeq (chunkSeqToID s) = Inr s"
proof -
  have d: "\<forall>c \<in> set (fmt_08d (uint s)). is_digit c" by (rule fmt_08d_digits) simp
  have "int (undec (fmt_08d (uint s))) = uint s" by (rule undec_fmt_08d) simp
  then have u: "undec (fmt_08d (uint s)) = unat s" by (metis nat_int unat_eq_nat_uint)
  then have "undec (fmt_08d (uint s)) < 2 ^ 32" using unsigned_less [of s, where ?'a = nat] by simp
  with u have "scan_uint32 (fmt_08d (uint s)) = Some s"
    using scan_uint32_digits [OF _ d] by simp
  then show ?thesis by (simp add: parseChunkSeq_def chunkSeqToID_def HasPrefix_def)
qed

lemma persistable_iff: "persistable i \<longleftrightarrow> (\<exists>s. i = chunkSeqToID s)"
  by (auto simp: persistable_def split: sum.splits)

lemma chunkSeqToID_inj: "chunkSeqToID a = chunkSeqToID b \<longleftrightarrow> a = b"
  using parse_chunkSeqToID by (metis sum.inject(2))

lemma from_to_inode [simp]: "from_wire_inode (to_wire_inode n) = n"
  by (simp add: from_wire_inode_def to_wire_inode_def)

lemma from_to_entry [simp]: "from_wire_entry (to_wire_entry e) = e"
  by (simp add: from_wire_entry_def to_wire_entry_def)

lemma wire_exts_roundtrip:
  assumes "\<forall>e \<in> set es. persistable (ChunkID e)"
  shows "\<exists>ws. to_wire_exts es = Inr ws \<and> map from_wire_ext ws = es"
  using assms by (induction es) (auto simp: persistable_iff from_wire_ext_def)

lemma wire_map_roundtrip:
  assumes "\<forall>x \<in> set m. \<forall>e \<in> set (snd x). persistable (ChunkID e)"
  shows "\<exists>wm. to_wire_extent_map m = Inr wm \<and> map (\<lambda>(i, es). (i, map from_wire_ext es)) wm = m"
  using assms
proof (induction m)
  case Nil
  then show ?case by simp
next
  case (Cons x m)
  obtain i es where x: "x = (i, es)" by force
  from Cons.prems x obtain ws where "to_wire_exts es = Inr ws" "map from_wire_ext ws = es"
    using wire_exts_roundtrip [of es] by auto
  with Cons x show ?case by auto
qed

lemma to_wire_exts_bad:
  "e \<in> set es \<Longrightarrow> parseChunkSeq (ChunkID e) = Inl err \<Longrightarrow> \<exists>err. to_wire_exts es = Inl err"
  by (induction es) (auto split: sum.splits)

lemma to_wire_map_bad:
  "(i, es) \<in> set m \<Longrightarrow> e \<in> set es \<Longrightarrow> parseChunkSeq (ChunkID e) = Inl err \<Longrightarrow>
   \<exists>err. to_wire_extent_map m = Inl err"
  by (induction m rule: to_wire_extent_map.induct) (auto dest: to_wire_exts_bad split: sum.splits)

lemma Snapshot_of_sel [simp]:
  "Inodes (Snapshot_of idx) = Some (inodes idx)" "ExtentMap (Snapshot_of idx) = Some (extents idx)"
  "SymlinkTargets (Snapshot_of idx) = Some (symlinks idx)" "Xattrs (Snapshot_of idx) = Some (xattrs idx)"
  "NextIno (Snapshot_of idx) = nextIno idx"
  by (simp_all add: Snapshot_of_def)

lemma live_in_extents: "e \<in> set (LiveExtents idx) \<longleftrightarrow> (\<exists>x \<in> set (extents idx). e \<in> set (snd x))"
  by (auto simp: LiveExtents_def)

lemma wire_roundtrip:
  assumes "\<forall>e \<in> set (LiveExtents idx). persistable (ChunkID e)"
  shows "\<exists>ws. toWireSnapshot (Snapshot_of idx) = Inr ws \<and> fromWireSnapshot ws = Snapshot_of idx"
proof -
  have "\<forall>x \<in> set (extents idx). \<forall>e \<in> set (snd x). persistable (ChunkID e)"
    using assms live_in_extents by blast
  then obtain wm where wm: "to_wire_extent_map (extents idx) = Inr wm"
    "map (\<lambda>(i, es). (i, map from_wire_ext es)) wm = extents idx"
    using wire_map_roundtrip by blast
  have ins: "map (\<lambda>(i, w). (i, from_wire_inode w)) (map (\<lambda>(i, n). (i, to_wire_inode n)) m) = m" for m :: "(ino, Inode) gomap"
    by (induction m) auto
  have es: "map from_wire_entry (map to_wire_entry l) = l" for l
    by (induction l) auto
  show ?thesis
    using wm ins [of "inodes idx"] es [of "DirEntries (Snapshot_of idx)"]
    by (simp add: toWireSnapshot_def fromWireSnapshot_def or_empty_def Snapshot_of_def)
qed

lemma to_wire_map_keys: "to_wire_extent_map m = Inr wm \<Longrightarrow> map fst wm = map fst m"
  by (induction m arbitrary: wm rule: to_wire_extent_map.induct) (auto split: sum.splits)

lemma wire_keys:
  assumes "toWireSnapshot snap = Inr ws"
  shows "map fst (wInodes ws) = map fst (or_empty (Inodes snap))"
    and "map fst (wExtentMap ws) = map fst (or_empty (ExtentMap snap))"
    and "wSymlinkTargets ws = SymlinkTargets snap" and "wXattrs ws = Xattrs snap"
  using assms to_wire_map_keys
  by (auto simp: toWireSnapshot_def comp_def split_def split: sum.splits)

lemma wire_rejects:
  assumes "e \<in> set (LiveExtents idx)" and "parseChunkSeq (ChunkID e) = Inl err"
  shows "\<exists>err. toWireSnapshot (Snapshot_of idx) = Inl err"
proof -
  from assms(1) obtain i es where "(i, es) \<in> set (extents idx)" "e \<in> set es"
    by (auto simp: live_in_extents)
  from to_wire_map_bad [OF this assms(2)] show ?thesis
    by (auto simp: toWireSnapshot_def or_empty_def)
qed

section \<open>Indexes with the same content\<close>

text \<open>
  Decoding a map gives the same map, not the same iteration order. Two indexes are
  the same when all their maps are, whatever the order of the lists that represent
  them.
\<close>

definition same_map :: "('k, 'v) gomap \<Rightarrow> ('k, 'v) gomap \<Rightarrow> bool" where
  "same_map a b \<longleftrightarrow> map_of a = map_of b"

definition same_nested :: "('k, ('l, 'v) gomap) gomap \<Rightarrow> ('k, ('l, 'v) gomap) gomap \<Rightarrow> bool" where
  "same_nested a b \<longleftrightarrow> (\<forall>k. map_option map_of (map_of a k) = map_option map_of (map_of b k))"

definition index_same :: "index \<Rightarrow> index \<Rightarrow> bool" where
  "index_same a b \<longleftrightarrow> same_map (inodes a) (inodes b) \<and> same_nested (dirIndex a) (dirIndex b)
     \<and> same_map (extents a) (extents b) \<and> same_map (symlinks a) (symlinks b)
     \<and> same_nested (xattrs a) (xattrs b) \<and> nextIno a = nextIno b"

definition nested_keys_ok :: "('k, ('l, 'v) gomap) gomap \<Rightarrow> bool" where
  "nested_keys_ok m \<longleftrightarrow> keys_ok m \<and> (\<forall>x \<in> set m. keys_ok (snd x))"

text \<open>What the codec preserves of a snapshot in wire form.\<close>

definition wire_same :: "cborSnapshot \<Rightarrow> cborSnapshot \<Rightarrow> bool" where
  "wire_same a b \<longleftrightarrow> same_map (wInodes a) (wInodes b) \<and> keys_ok (wInodes b)
     \<and> wDirEntries a = wDirEntries b \<and> same_map (wExtentMap a) (wExtentMap b) \<and> keys_ok (wExtentMap b)
     \<and> same_map (or_empty (wSymlinkTargets a)) (or_empty (wSymlinkTargets b))
     \<and> keys_ok (or_empty (wSymlinkTargets b))
     \<and> same_nested (or_empty (wXattrs a)) (or_empty (wXattrs b)) \<and> nested_keys_ok (or_empty (wXattrs b))
     \<and> wNextIno a = wNextIno b"

definition codec_ok :: "encoder \<Rightarrow> decoder \<Rightarrow> bool" where
  "codec_ok cborEnc cborDec \<longleftrightarrow>
     (\<forall>ws d. cborEnc ws = Some d \<longrightarrow> (\<exists>ws'. cborDec d = Some ws' \<and> wire_same ws ws'))"

lemma asum_dom:
  assumes "keys_ok m"
  shows "asum w m = (\<Sum>k \<in> dom (map_of m). w k (the (map_of m k)))"
proof -
  have d: "distinct m" using assms by (simp add: keys_ok_def distinct_map)
  have i: "inj_on fst (set m)" using assms by (simp add: keys_ok_def distinct_map)
  have "(\<Sum>k \<in> fst ` set m. w k (the (map_of m k))) = (\<Sum>x \<in> set m. w (fst x) (the (map_of m (fst x))))"
    using i by (simp add: sum.reindex)
  also have "\<dots> = (\<Sum>x \<in> set m. w (fst x) (snd x))"
    using assms by (intro sum.cong) (auto simp: keys_ok_def)
  finally show ?thesis using d
    by (simp add: asum_def sum_list_distinct_conv_sum_set dom_map_of_conv_image_fst split_def)
qed

lemma same_nested_dom: "same_nested a b \<Longrightarrow> map_of a k = None \<longleftrightarrow> map_of b k = None"
  unfolding same_nested_def by (metis option.map_disc_iff)

lemma same_nestedD: "same_nested a b \<Longrightarrow> map_option map_of (map_of a k) = map_option map_of (map_of b k)"
  by (simp only: same_nested_def)

lemma same_nested_Lookup:
  assumes "same_nested (dirIndex a) (dirIndex b)"
  shows "Lookup a = Lookup b"
proof (intro ext)
  fix p nm
  show "Lookup a p nm = Lookup b p nm"
    using same_nestedD [OF assms, of p]
    by (cases "map_of (dirIndex a) p"; cases "map_of (dirIndex b) p") (simp_all add: Lookup_def)
qed

lemma refs_same:
  assumes s: "same_nested a b"
    and a: "keys_ok a" "\<And>p cs. map_of a p = Some cs \<Longrightarrow> keys_ok cs"
    and b: "keys_ok b" "\<And>p cs. map_of b p = Some cs \<Longrightarrow> keys_ok cs"
  shows "refs a i = refs b i"
proof -
  have d: "dom (map_of a) = dom (map_of b)" using same_nested_dom [OF s] by (auto simp: dom_def)
  have "cnt i (the (map_of a p)) = cnt i (the (map_of b p))" if p: "p \<in> dom (map_of b)" for p
  proof -
    from p d obtain x y where x: "map_of a p = Some x" and y: "map_of b p = Some y" by blast
    with same_nestedD [OF s, of p] have "map_of x = map_of y" by simp
    then have "cnt i x = cnt i y" unfolding cnt_def by (rule asum_map_of_cong [OF a(2) [OF x] b(2) [OF y]])
    then show ?thesis using x y by simp
  qed
  then show ?thesis unfolding refs_def asum_dom [OF a(1)] asum_dom [OF b(1)] d by simp
qed

lemma index_same_inv:
  assumes inv: "index_inv a" and s: "index_same a b" and k: "wf_keys b"
  shows "index_inv b"
proof -
  have eq: "map_of (inodes b) = map_of (inodes a)" "map_of (extents b) = map_of (extents a)"
    "map_of (symlinks b) = map_of (symlinks a)" "nextIno b = nextIno a"
    using s by (simp_all add: index_same_def same_map_def)
  have dd: "map_of (dirIndex b) p = None \<longleftrightarrow> map_of (dirIndex a) p = None"
    and xx: "map_of (xattrs b) p = None \<longleftrightarrow> map_of (xattrs a) p = None" for p
    using s same_nested_dom [of "dirIndex a" "dirIndex b" p] same_nested_dom [of "xattrs a" "xattrs b" p]
    by (simp_all add: index_same_def)
  have l: "Lookup b = Lookup a" using s same_nested_Lookup [of a b] by (simp add: index_same_def)
  have r: "refs (dirIndex b) i = refs (dirIndex a) i" for i
    using refs_same [of "dirIndex a" "dirIndex b" i] s k inv
    by (simp add: index_same_def index_inv_def wf_keys_def)
  have e: "is_dir b = is_dir a" "is_file b = is_file a" "file_extents b = file_extents a"
    by (simp_all add: is_dir_def is_file_def file_extents_def fun_eq_iff eq)
  have "wf_inodes b" using inv by (simp add: index_inv_def wf_inodes_def eq)
  moreover have "wf_dirs b" using inv unfolding index_inv_def wf_dirs_def l e eq(1) dd by blast
  moreover have "wf_nlink b" using inv unfolding index_inv_def wf_nlink_def eq(1) r by blast
  moreover have "wf_files b" using inv unfolding index_inv_def wf_files_def e eq(1,2) by blast
  moreover have "wf_side b" using inv unfolding index_inv_def wf_side_def eq(1,3) xx by blast
  ultimately show ?thesis using k by (simp add: index_inv_def)
qed

section \<open>Loading what was saved\<close>

lemma FromSnapshot_dirs_of:
  "map_of (dirIndex (FromSnapshot snap bs)) q =
     (case map_of (foldl add_entry [] (DirEntries snap)) q of
        Some cs \<Rightarrow> Some cs
      | None \<Rightarrow> if \<exists>n. (q, n) \<in> set (or_empty (Inodes snap)) \<and> FileType n = Directory then Some [] else None)"
  by (simp add: FromSnapshot_def Let_def ensure_dirs)

lemma map_of_map_values: "map_of (map (\<lambda>(i, v). (i, f v)) m) k = map_option f (map_of m k)"
  by (induction m) auto

lemma keys_ok_map_values: "keys_ok (map (\<lambda>(i, v). (i, f v)) m) \<longleftrightarrow> keys_ok m"
  by (simp add: keys_ok_def comp_def split_def)

lemma restore_same:
  assumes inv: "index_inv idx" and w: "toWireSnapshot (Snapshot_of idx) = Inr ws"
    and f: "fromWireSnapshot ws = Snapshot_of idx" and s: "wire_same ws ws'"
  shows "index_same idx (FromSnapshot (fromWireSnapshot ws') bs)" (is "index_same idx ?r")
    and "wf_keys (FromSnapshot (fromWireSnapshot ws') bs)"
proof -
  have ws: "map (\<lambda>(i, w). (i, from_wire_inode w)) (wInodes ws) = inodes idx"
    "map from_wire_entry (wDirEntries ws) = DirEntries (Snapshot_of idx)"
    "map (\<lambda>(i, es). (i, map from_wire_ext es)) (wExtentMap ws) = extents idx"
    "wSymlinkTargets ws = Some (symlinks idx)" "wXattrs ws = Some (xattrs idx)" "wNextIno ws = nextIno idx"
    using f by (simp_all add: fromWireSnapshot_def Snapshot_of_def)
  have ins: "map_of (inodes ?r) k = map_of (inodes idx) k" for k
    using s unfolding ws(1) [symmetric]
    by (simp add: FromSnapshot_def fromWireSnapshot_def or_empty_def Let_def map_of_map_values wire_same_def same_map_def)
  have exts: "map_of (extents ?r) k = map_of (extents idx) k" for k
    using s unfolding ws(3) [symmetric]
    by (simp add: FromSnapshot_def fromWireSnapshot_def or_empty_def Let_def map_of_map_values wire_same_def same_map_def)
  have k: "keys_ok (inodes ?r)" "keys_ok (extents ?r)" "keys_ok (symlinks ?r)" "keys_ok (xattrs ?r)" "keys_ok (dirIndex ?r)"
    using s by (simp_all add: FromSnapshot_def fromWireSnapshot_def or_empty_def Let_def keys_ok_map_values
        wire_same_def nested_keys_ok_def keys_ok_ensure keys_ok_add_entries)
  have de: "DirEntries (fromWireSnapshot ws') = DirEntries (Snapshot_of idx)"
    using s ws(2) by (simp add: fromWireSnapshot_def wire_same_def)
  have kin: "keys_ok (inodes idx)" using inv by (simp add: index_inv_def wf_keys_def)
  have "set (inodes ?r) = set (inodes idx)"
    using ins k(1) kin by (auto simp: keys_ok_map_of_iff [symmetric])
  then have "set (or_empty (Inodes (fromWireSnapshot ws'))) = set (or_empty (Inodes (Snapshot_of idx)))"
    by (simp add: FromSnapshot_def Let_def or_empty_def)
  then have "map_of (dirIndex ?r) q = map_of (dirIndex (FromSnapshot (Snapshot_of idx) bs)) q" for q
    by (simp only: FromSnapshot_dirs_of de)
  then have dirs: "map_of (dirIndex ?r) q = map_of (dirIndex idx) q" for q
    using FromSnapshot_dirs [OF inv] by simp
  show "wf_keys ?r"
    using k dirs inv by (simp add: wf_keys_def index_inv_def)
  have "same_map (symlinks idx) (symlinks ?r)" "same_nested (xattrs idx) (xattrs ?r)" "nextIno idx = nextIno ?r"
    using s ws(4-6) by (simp_all add: wire_same_def FromSnapshot_def fromWireSnapshot_def Let_def or_empty_def)
  then show "index_same idx ?r"
    using ins exts dirs by (simp add: index_same_def same_map_def same_nested_def fun_eq_iff)
qed

lemma Unmarshal_Marshal:
  assumes inv: "index_inv idx" and p: "\<forall>e \<in> set (LiveExtents idx). persistable (ChunkID e)"
    and c: "codec_ok cborEnc cborDec" and m: "Marshal cborEnc idx = Inr d"
  shows "\<exists>r. Unmarshal cborDec d bs = Inr r \<and> index_same idx r \<and> index_inv r"
proof -
  obtain ws where ws: "toWireSnapshot (Snapshot_of idx) = Inr ws" "fromWireSnapshot ws = Snapshot_of idx"
    using wire_roundtrip [OF p] by blast
  with m have "cborEnc ws = Some d" by (simp add: Marshal_def split: option.splits)
  with c obtain ws' where ws': "cborDec d = Some ws'" "wire_same ws ws'" unfolding codec_ok_def by blast
  note r = restore_same [OF inv ws ws'(2), of bs]
  show ?thesis
    using ws' r index_same_inv [OF inv r] by (simp add: Unmarshal_def)
qed

section \<open>Saving is atomic\<close>

lemma MkdirAll_files: "MkdirAll dir fs = (r, fs') \<Longrightarrow> files fs' = files fs"
  by (auto simp: MkdirAll_def Let_def split: prod.splits if_splits dest!: os_tick_keeps)

lemma plain_snapshot [simp]: "plain_name snapshotFile" "plain_name (snapshotFile @ ''.tmp'')"
  by (simp_all add: plain_name_def snapshotFile_def)

lemma Marshal_Save:
  assumes "Marshal cborEnc idx = Inr d"
  shows "Save cborEnc idx dir fs =
    (case MkdirAll dir fs of
       (Inl e, fs1) \<Rightarrow> (Inl (OSFailed e), idx, fs1)
     | (Inr _, fs1) \<Rightarrow>
         (case WriteFile (dir @ [snapshotFile @ ''.tmp'']) d fs1 of
            (Inl e, fs2) \<Rightarrow> (Inl (OSFailed e), idx, fs2)
          | (Inr _, fs2) \<Rightarrow>
              (case os_Rename (dir @ [snapshotFile @ ''.tmp'']) (dir @ [snapshotFile]) fs2 of
                 (Inl e, fs3) \<Rightarrow> (Inl (OSFailed e), idx, fs3)
               | (Inr _, fs3) \<Rightarrow> (Inr (), MarkClean idx, fs3))))"
  using assms unfolding Save_def Let_def Join_plain [OF plain_snapshot(1)] Join_plain [OF plain_snapshot(2)]
  by (simp add: Marshal_def split: sum.splits option.splits)

lemma Save_cases:
  assumes "Save cborEnc idx dir fs = (r, idx', fs')"
  shows "r = Inr () \<and> idx' = MarkClean idx \<and>
      (\<exists>d. Marshal cborEnc idx = Inr d \<and> map_of (files fs') (dir @ [snapshotFile]) = Some d)
    \<or> (\<exists>e. r = Inl e) \<and> idx' = idx \<and> map_of (files fs') (dir @ [snapshotFile]) = map_of (files fs) (dir @ [snapshotFile])"
proof (cases "Marshal cborEnc idx")
  case (Inl e)
  with assms show ?thesis
    by (auto simp: Save_def Marshal_def split: sum.splits option.splits)
next
  case (Inr d)
  let ?tmp = "dir @ [snapshotFile @ ''.tmp'']" let ?dst = "dir @ [snapshotFile]"
  obtain r1 fs1 where m: "MkdirAll dir fs = (r1, fs1)" by force
  obtain r2 fs2 where w: "WriteFile ?tmp d fs1 = (r2, fs2)" by force
  obtain r3 fs3 where n: "os_Rename ?tmp ?dst fs2 = (r3, fs3)" by force
  from Inr assms m have S: "(r, idx', fs') =
      (case r1 of Inl e \<Rightarrow> (Inl (OSFailed e), idx, fs1) | Inr _ \<Rightarrow>
        (case r2 of Inl e \<Rightarrow> (Inl (OSFailed e), idx, fs2) | Inr _ \<Rightarrow>
          (case r3 of Inl e \<Rightarrow> (Inl (OSFailed e), idx, fs3) | Inr _ \<Rightarrow> (Inr (), MarkClean idx, fs3))))"
    by (auto simp: Save_def Marshal_def w n split: sum.splits option.splits)
  have f1: "files fs1 = files fs" by (rule MkdirAll_files [OF m])
  have f2: "map_of (files fs2) ?dst = map_of (files fs) ?dst"
    using w by (cases rule: WriteFile_cases) (simp_all add: f1)
  have t2: "r2 = Inr () \<Longrightarrow> map_of (files fs2) ?tmp = Some d"
    using w by (cases rule: WriteFile_cases) simp_all
  have f3: "r3 = Inr () \<Longrightarrow> r2 = Inr () \<Longrightarrow> map_of (files fs3) ?dst = Some d"
    and f4: "r3 = Inl e \<Longrightarrow> map_of (files fs3) ?dst = map_of (files fs) ?dst" for e
    using n t2 f2 by (cases rule: os_Rename_cases; simp)+
  show ?thesis using S f1 f2 f3 f4 Inr by (auto split: sum.splits)
qed

lemma Save_other_files:
  assumes "Save cborEnc idx dir fs = (r, idx', fs')" and p: "p \<noteq> dir @ [snapshotFile]" "p \<noteq> dir @ [snapshotFile @ ''.tmp'']"
  shows "map_of (files fs') p = map_of (files fs) p"
proof (cases "Marshal cborEnc idx")
  case (Inl e)
  with assms show ?thesis
    by (auto simp: Save_def Marshal_def split: sum.splits option.splits)
next
  case (Inr d)
  let ?tmp = "dir @ [snapshotFile @ ''.tmp'']" let ?dst = "dir @ [snapshotFile]"
  obtain r1 fs1 where m: "MkdirAll dir fs = (r1, fs1)" by force
  obtain r2 fs2 where w: "WriteFile ?tmp d fs1 = (r2, fs2)" by force
  obtain r3 fs3 where n: "os_Rename ?tmp ?dst fs2 = (r3, fs3)" by force
  have S: "fs' = fs1 \<or> fs' = fs2 \<or> fs' = fs3"
    using Inr assms m by (auto simp: Save_def Marshal_def w n split: sum.splits option.splits)
  have f1: "files fs1 = files fs" by (rule MkdirAll_files [OF m])
  have f2: "map_of (files fs2) p = map_of (files fs) p"
    using w p by (cases rule: WriteFile_cases) (simp_all add: f1)
  have "map_of (files fs3) p = map_of (files fs) p"
    using n p f2 by (cases rule: os_Rename_cases) simp_all
  with S f1 f2 show ?thesis by auto
qed

text \<open>With no fault pending and a directory that can be made, saving succeeds.\<close>

lemma Save_works:
  assumes "Marshal cborEnc idx = Inr d" and "faults fs = []" and "\<forall>q \<in> set (prefixes dir). map_of (files fs) q = None"
    and "dir @ [snapshotFile] \<notin> set (dirs fs)" and "dir @ [snapshotFile @ ''.tmp''] \<notin> set (dirs fs)"
  shows "\<exists>fs'. Save cborEnc idx dir fs = (Inr (), MarkClean idx, fs') \<and> faults fs' = []
    \<and> map_of (files fs') (dir @ [snapshotFile]) = Some d"
proof -
  let ?tmp = "dir @ [snapshotFile @ ''.tmp'']" let ?dst = "dir @ [snapshotFile]"
  let ?fs1 = "fs\<lparr>dirs := prefixes dir @ dirs fs\<rparr>"
  have m: "MkdirAll dir fs = (Inr (), ?fs1)" using assms(2,3) by (auto simp: MkdirAll_def)
  have wr: "writable ?tmp ?fs1" "writable ?dst ?fs1"
    using assms(4,5) by (auto simp: writable_def prefix_def)
  have w: "WriteFile ?tmp d ?fs1 = (Inr (), put_file ?tmp d ?fs1)" using wr assms(2) by (simp add: WriteFile_def)
  let ?fs3 = "put_file ?dst d ((put_file ?tmp d ?fs1)\<lparr>files := AList.delete ?tmp (files (put_file ?tmp d ?fs1))\<rparr>)"
  have n: "os_Rename ?tmp ?dst (put_file ?tmp d ?fs1) = (Inr (), ?fs3)"
    using wr assms(2) by (simp add: os_Rename_def writable_def)
  have "Save cborEnc idx dir fs = (Inr (), MarkClean idx, ?fs3)"
    using Marshal_Save [OF assms(1)] m w n by simp
  then show ?thesis using assms(2) by (intro exI [of _ ?fs3]) simp
qed

lemma Load_reads:
  assumes "faults fs = []" and "map_of (files fs) (dir @ [snapshotFile]) = Some d"
  shows "Load cborDec dir bs fs = (Unmarshal cborDec d bs, fs)"
  using assms by (simp add: Load_def Unmarshal_def ReadFile_def split: option.splits)

end
