(* ===== verification/Index_Props.thy ===== *)
theory Index_Props
  imports Index_Spec
begin

text \<open>
  The properties of the index, each with a concrete instance where it has
  hypotheses. The instances use one small run: a file \<^verbatim>\<open>a\<close> is created in the root
  directory and two extents are written to it.
\<close>

section \<open>A concrete run\<close>

lemma is_dir_code [code]:
  "is_dir idx p \<longleftrightarrow> (case map_of (inodes idx) p of None \<Rightarrow> False | Some n \<Rightarrow> FileType n = Directory)"
  by (simp add: is_dir_def split: option.splits)

lemma is_file_code [code]:
  "is_file idx p \<longleftrightarrow> (case map_of (inodes idx) p of None \<Rightarrow> False | Some n \<Rightarrow> FileType n = Regular)"
  by (simp add: is_file_def split: option.splits)

definition ex_ext :: "int \<Rightarrow> int \<Rightarrow> Extent" where
  "ex_ext off len = \<lparr>ChunkID = ''chunk-00000000'', ChunkOffset = off, Length = len, FileOffset = off\<rparr>"

definition ex0 :: index where "ex0 = New_index 4096 0"
definition ex1 :: index where "ex1 = snd (CreateInode ex0 Regular 0x1A4 0 0 0 1)"
definition ex2 :: index where "ex2 = projr (AddDirEntry ex1 1 ''a'' 2 1)"
definition ex3 :: index where "ex3 = projr (WriteExtent ex2 2 (ex_ext 0 10) 2)"
definition ex4 :: index where "ex4 = projr (WriteExtent ex3 2 (ex_ext 10 10) 3)"

lemma Inr_projr: "\<not> isl x \<Longrightarrow> x = Inr (projr x)"
  by (cases x) simp_all

lemma ex_runs:
  "AddDirEntry ex1 1 ''a'' 2 1 = Inr ex2" "WriteExtent ex2 2 (ex_ext 0 10) 2 = Inr ex3"
  "WriteExtent ex3 2 (ex_ext 10 10) 3 = Inr ex4"
  unfolding ex2_def ex3_def ex4_def by (rule Inr_projr, code_simp)+

lemma ex_ext_ok: "ext_ok (ex_ext 0 10)" "ext_ok (ex_ext 10 10)"
  by (simp_all add: ext_ok_def ex_ext_def)

lemma ex_steps: "index_step ex0 ex1" "index_step ex1 ex2" "index_step ex2 ex3" "index_step ex3 ex4"
proof -
  show "index_step ex0 ex1"
    by (rule step_meta, rule step_create [of _ Regular "0x1A4" 0 0 0 1 "fst (CreateInode ex0 Regular 0x1A4 0 0 0 1)"])
      (simp_all add: ex1_def ex0_def New_index_def RootIno_def Let_def)
  have "GetInode ex1 2 = Some n \<Longrightarrow> Nlink n \<noteq> - 1" for n
    by (auto simp: ex1_def ex0_def GetInode_def CreateInode_def New_index_def RootIno_def fresh_inode_def
        zero_inode_def put_inode_def Let_def mark_dirty_def file_type_defs)
  moreover have "(2 :: ino) \<noteq> RootIno" by code_simp
  ultimately show "index_step ex1 ex2" using ex_runs(1) by (intro step_meta step_add)
  show "index_step ex2 ex3" using ex_runs(2) ex_ext_ok(1) by (rule step_write)
  show "index_step ex3 ex4" using ex_runs(3) ex_ext_ok(2) by (rule step_write)
qed

lemma ex_invs: "index_inv ex0" "index_inv ex1" "index_inv ex2" "index_inv ex3" "index_inv ex4"
proof -
  show 0: "index_inv ex0" by (simp add: ex0_def New_index_inv)
  show 1: "index_inv ex1" by (rule index_step_inv [OF ex_steps(1) 0])
  show 2: "index_inv ex2" by (rule index_step_inv [OF ex_steps(2) 1])
  show 3: "index_inv ex3" by (rule index_step_inv [OF ex_steps(3) 2])
  show "index_inv ex4" by (rule index_step_inv [OF ex_steps(4) 3])
qed

section \<open>Invariant\<close>



section \<open>Data\<close>

text \<open>C2. \<^verbatim>\<open>WriteExtent\<close> succeeds on every regular file. When the write does not cut an
  extent other than the last in two, the written range then maps to the new extent,
  every other byte of the file and of every other file stays where it was, the size
  becomes the larger of the old size and the end of the write, and no name changes.\<close>

theorem WriteExtent_overrides:
  assumes "index_inv idx" and "GetInode idx i = Some n" and "FileType n = Regular"
    and "ext_ok ext" and "split_safe ext (file_extents idx i)"
  shows "\<exists>idx' m. WriteExtent idx i ext now = Inr idx' \<and> index_inv idx'
    \<and> GetInode idx' i = Some m \<and> Size m = max (Size n) (FileOffset ext + Length ext)
    \<and> (\<forall>j b. file_loc idx' j b =
          (if j = i \<and> covers ext b then Some (ext_loc ext b) else file_loc idx j b))
    \<and> Lookup idx' = Lookup idx"
proof -
  have "is_file idx i" using assms(2,3) by (simp add: is_file_def GetInode_def)
  then obtain idx' where ok: "WriteExtent idx i ext now = Inr idx'" using WriteExtent_succeeds by blast
  have inv: "index_inv idx'" by (rule WriteExtent_inv [OF assms(1,4) ok])
  have l: "file_loc idx' j b =
      (if j = i \<and> covers ext b then Some (ext_loc ext b) else file_loc idx j b)" for j b
    by (rule WriteExtent_loc [OF assms(1) ok assms(4,5)])
  from ok assms(4) show ?thesis
    by (rule WriteExtent_cases) (use ok assms(2) inv l in auto)
qed

theorem WriteExtent_overrides_witness:
  "\<exists>idx'. WriteExtent ex3 2 (ex_ext 4 3) 9 = Inr idx' \<and> file_loc idx' 2 5 = Some (''chunk-00000000'', 5)
     \<and> file_loc idx' 2 8 = Some (''chunk-00000000'', 8)"
proof -
  obtain n where n: "GetInode ex3 2 = Some n" "FileType n = Regular"
    using WriteExtent_succeeds [of ex3 2] ex_runs(3) by (auto simp: is_file_def GetInode_def)
  have s: "split_safe (ex_ext 4 3) (file_extents ex3 2)" by code_simp
  have e: "ext_ok (ex_ext 4 3)" by (simp add: ext_ok_def ex_ext_def)
  have "file_loc ex3 2 8 = Some (''chunk-00000000'', 8)" by code_simp
  then show ?thesis
    using WriteExtent_overrides [OF ex_invs(4) n e s, of 9] by (auto simp: covers_def ext_loc_def ex_ext_def)
qed

text \<open>C3. A write strictly inside an extent that is not the last one of its file
  destroys data: every byte held by an extent further on in the list becomes a hole.
  The loop appends the two remaining pieces to a slice that shares the array it is
  still reading.\<close>

theorem WriteExtent_split_loses:
  assumes "index_inv idx" and "is_file idx i" and "disjoint_exts (file_extents idx i)" and "ext_ok ext"
    and "k < j" and "j < length (file_extents idx i)" and "0 < Length ext"
    and "FileOffset (file_extents idx i ! k) < FileOffset ext"
    and "FileOffset ext + Length ext < FileOffset (file_extents idx i ! k) + Length (file_extents idx i ! k)"
    and "covers (file_extents idx i ! j) b"
  shows "file_loc idx i b \<noteq> None
    \<and> (\<exists>idx'. WriteExtent idx i ext now = Inr idx' \<and> file_loc idx' i b = None)"
proof (rule conjI)
  have "file_extents idx i ! j \<in> set (file_extents idx i)" using assms(6) by simp
  with assms(10) show "file_loc idx i b \<noteq> None" unfolding file_loc_def loc_None_iff by blast
  obtain idx' where ok: "WriteExtent idx i ext now = Inr idx'" using assms(2) WriteExtent_succeeds by blast
  have "\<forall>e \<in> set (file_extents idx i). ext_ok e" using inv_exts_ok [OF assms(1)] by blast
  from write_extents_split_loses [OF assms(4) this assms(3,5,6,8,7,9,10)]
  have "loc (write_extents ext (file_extents idx i)) b = None" .
  moreover from ok assms(4) have "file_extents idx' i = write_extents ext (file_extents idx i)"
    by (rule WriteExtent_cases) simp
  ultimately show "\<exists>idx'. WriteExtent idx i ext now = Inr idx' \<and> file_loc idx' i b = None"
    using ok by (auto simp: file_loc_def)
qed

theorem WriteExtent_split_loses_witness:
  "file_loc ex4 2 15 \<noteq> None \<and> (\<exists>idx'. WriteExtent ex4 2 (ex_ext 4 3) 9 = Inr idx' \<and> file_loc idx' 2 15 = None)"
proof -
  have x: "file_extents ex4 2 = [ex_ext 0 10, ex_ext 10 10]" by code_simp
  have f: "is_file ex4 2" by code_simp
  show ?thesis
    using WriteExtent_split_loses [of ex4 2 "ex_ext 4 3" 0 1 15 9] ex_invs(5) f
    by (simp add: x ext_ok_def disjoint_exts_def overlap_def covers_def) (simp add: ex_ext_def)
qed

text \<open>C4. Setting the size of a regular file to any non-negative value succeeds and
  keeps the invariant: the size is the new one, bytes at or beyond it are holes, the
  bytes before it and the contents of all other files stay where they were, and no
  other inode changes.\<close>

theorem SetAttr_truncates:
  assumes "index_inv idx" and "GetInode idx i = Some n" and "FileType n = Regular"
    and "0 \<le> s" and "s < 2 ^ 63"
  shows "\<exists>idx' m. SetAttr idx i mode uid gid (Some s) atime mtime now = Inr idx' \<and> index_inv idx'
    \<and> GetInode idx' i = Some m \<and> Size m = s
    \<and> (\<forall>j b. file_loc idx' j b = (if j = i \<and> s \<le> b then None else file_loc idx j b))
    \<and> (\<forall>j. j \<noteq> i \<longrightarrow> GetInode idx' j = GetInode idx j)"
proof -
  obtain idx' m where r: "SetAttr idx i mode uid gid (Some s) atime mtime now = Inr idx'"
    "GetInode idx' i = Some m" "Size m = s"
    "\<And>j b. file_loc idx' j b = (if j = i \<and> s \<le> b then None else file_loc idx j b)"
    "\<And>j. j \<noteq> i \<Longrightarrow> GetInode idx' j = GetInode idx j"
    using SetAttr_size [OF assms] by metis
  moreover have "index_inv idx'" using assms(4,5) by (intro SetAttr_inv [OF assms(1) r(1)]) auto
  ultimately show ?thesis by blast
qed

lemma ex4_inode: "\<exists>n. GetInode ex4 2 = Some n \<and> FileType n = Regular \<and> Nlink n = 1 \<and> Size n = 20"
proof -
  have "case GetInode ex4 2 of None \<Rightarrow> False | Some n \<Rightarrow> FileType n = Regular \<and> Nlink n = 1 \<and> Size n = 20"
    by code_simp
  then show ?thesis by (auto split: option.splits)
qed

theorem SetAttr_truncates_witness:
  "\<exists>idx'. SetAttr ex4 2 None None None (Some 12) None None 9 = Inr idx'
     \<and> file_loc idx' 2 11 = Some (''chunk-00000000'', 11) \<and> file_loc idx' 2 12 = None"
proof -
  obtain n where n: "GetInode ex4 2 = Some n" "FileType n = Regular" using ex4_inode by blast
  have "file_loc ex4 2 11 = Some (''chunk-00000000'', 11)" by code_simp
  then show ?thesis
    using SetAttr_truncates [OF ex_invs(5) n, of 12 None None None None None 9] by auto
qed

section \<open>Names\<close>

text \<open>C5. Removing an entry succeeds exactly when the entry exists and is not a
  non-empty directory. Then only that name disappears, the inode is freed exactly
  when the name was its last one, and no inode but the child and the parent changes.\<close>

theorem RemoveDirEntry_correct:
  assumes "index_inv idx"
  shows "((\<exists>idx'. RemoveDirEntry idx p nm now = Inr idx') \<longleftrightarrow>
      (\<exists>c. Lookup idx p nm = Some c \<and> children idx c = []))
    \<and> (\<forall>idx' c. RemoveDirEntry idx p nm now = Inr idx' \<longrightarrow> Lookup idx p nm = Some c \<longrightarrow>
        index_inv idx'
        \<and> (\<forall>q m. Lookup idx' q m = (if q = p \<and> m = nm then None else Lookup idx q m))
        \<and> (GetInode idx' c = None \<longleftrightarrow> refs (dirIndex idx) c = 1)
        \<and> (\<forall>i. i \<noteq> c \<longrightarrow> i \<noteq> p \<longrightarrow> GetInode idx' i = GetInode idx i))"
  using RemoveDirEntry_succeeds [OF assms] RemoveDirEntry_Lookup [OF assms] RemoveDirEntry_inv [OF assms]
  by auto

theorem RemoveDirEntry_correct_witness:
  "\<exists>idx'. RemoveDirEntry ex4 1 ''a'' 9 = Inr idx' \<and> GetInode idx' 2 = None"
proof -
  have l: "Lookup ex4 1 ''a'' = Some 2" and "children ex4 2 = []" and r: "refs (dirIndex ex4) 2 = 1"
    by code_simp+
  then show ?thesis using RemoveDirEntry_correct [OF ex_invs(5), of 1 "''a''" 9] by auto
qed



text \<open>C7. Renaming a file onto its own name destroys it: the call succeeds, the inode is
  freed, and the name is left pointing at an inode that no longer exists. POSIX
  requires such a rename to do nothing.\<close>

theorem Rename_self_destroys:
  assumes "index_inv idx" and "Lookup idx p nm = Some s" and "GetInode idx s = Some n"
    and "FileType n \<noteq> Directory" and "Nlink n = 1"
  shows "\<exists>idx'. Rename idx p nm p nm now = Inr idx' \<and> Lookup idx' p nm = Some s
    \<and> GetInode idx' s = None \<and> \<not> index_inv idx'"
proof -
  obtain idx' where r: "Rename idx p nm p nm now = Inr idx'" "Lookup idx' p nm = Some s" "GetInode idx' s = None"
    using Rename_self_frees [OF assms] by blast
  then have "\<not> index_inv idx'" using inv_Lookup(1) [of idx' p nm s] by (auto simp: GetInode_def)
  with r show ?thesis by blast
qed

theorem Rename_self_destroys_witness:
  "\<exists>idx'. Rename ex4 1 ''a'' 1 ''a'' 9 = Inr idx' \<and> GetInode idx' 2 = None"
proof -
  obtain n where n: "GetInode ex4 2 = Some n" "FileType n = Regular" "Nlink n = 1" using ex4_inode by blast
  have "Lookup ex4 1 ''a'' = Some 2" by code_simp
  then show ?thesis
    using Rename_self_destroys [OF ex_invs(5) _ n(1), of 1 "''a''" 9] n by auto
qed

text \<open>C8. Under the invariant the index never panics: adding and removing entries never
  reach a nil inode or a nil entry map, and neither does a rename whose destination
  parent is a directory.\<close>

theorem index_no_panic:
  assumes "index_inv idx"
  shows "AddDirEntry idx p nm c now \<noteq> Inl IndexPanic \<and> RemoveDirEntry idx p nm now \<noteq> Inl IndexPanic
    \<and> (is_dir idx dp \<longrightarrow> Rename idx sp sn dp dn now \<noteq> Inl IndexPanic)"
  using AddDirEntry_no_panic [OF assms] RemoveDirEntry_no_panic [OF assms] Rename_no_panic [OF assms] by blast

theorem index_no_panic_witness: "Rename ex4 1 ''a'' 1 ''b'' 9 \<noteq> Inl IndexPanic"
proof -
  have "is_dir ex4 1" by code_simp
  then show ?thesis using index_no_panic [OF ex_invs(5)] by blast
qed

section \<open>Snapshots and listings\<close>

text \<open>C9. Restoring a snapshot gives back the index it was taken of: the same inodes,
  extents, symlink targets, attributes, next inode number, and for every directory the
  same entries, although the snapshot holds the entries as one flat list. The restored
  index is clean and satisfies the invariant.\<close>

theorem snapshot_roundtrip:
  assumes "index_inv idx"
  shows "let r = FromSnapshot (Snapshot_of idx) bs in
    inodes r = inodes idx \<and> extents r = extents idx \<and> symlinks r = symlinks idx \<and> xattrs r = xattrs idx
    \<and> nextIno r = nextIno idx \<and> map_of (dirIndex r) = map_of (dirIndex idx)
    \<and> \<not> IsDirty r \<and> \<not> IsRemoteDirty r \<and> index_inv r"
  using FromSnapshot_dirs [OF assms] FromSnapshot_inv [OF assms]
  by (simp add: Let_def IsDirty_def IsRemoteDirty_def fun_eq_iff)

theorem snapshot_roundtrip_witness: "Lookup (FromSnapshot (Snapshot_of ex4) 512) 1 ''a'' = Some 2"
proof -
  have "Lookup ex4 1 ''a'' = Some 2" by code_simp
  then show ?thesis using snapshot_roundtrip [OF ex_invs(5), of 512] by (simp add: Let_def Lookup_def)
qed

text \<open>C10. Listing a directory succeeds and returns exactly the entries that lookups
  find there, each name once; and the parent the index reports for a linked inode is a
  directory that has an entry for it.\<close>

theorem Readdir_exact:
  assumes "index_inv idx" and "is_dir idx p"
  shows "\<exists>es. Readdir idx p = Inr es \<and> distinct (map Name es)
    \<and> (\<forall>e. e \<in> set es \<longleftrightarrow> ParentIno e = p \<and> Lookup idx p (Name e) = Some (ChildIno e))
    \<and> (\<forall>e \<in> set es. \<exists>nm. Lookup idx (GetParentIno idx (ChildIno e)) nm = Some (ChildIno e))"
proof -
  obtain es where "Readdir idx p = Inr es" "distinct (map Name es)"
    and "\<And>e. e \<in> set es \<longleftrightarrow> ParentIno e = p \<and> Lookup idx p (Name e) = Some (ChildIno e)"
    using Readdir_entries [OF assms] by metis
  then show ?thesis using GetParentIno_names [OF assms(1)] by blast
qed

theorem Readdir_exact_witness:
  "\<exists>es. Readdir ex4 1 = Inr es \<and> \<lparr>ParentIno = 1, Name = ''a'', ChildIno = 2\<rparr> \<in> set es"
proof -
  have "is_dir ex4 1" and "Lookup ex4 1 ''a'' = Some 2" by code_simp+
  then show ?thesis using Readdir_exact [OF ex_invs(5), of 1] by auto
qed

end
