(* ===== verification/Persist_Props.thy ===== *)
theory Persist_Props
  imports Persist Index_Props
begin

text \<open>
  The properties of persistence. The concrete instances use a codec that knows one
  snapshot, the one of the run \<open>ex4\<close>.
\<close>

section \<open>A concrete codec\<close>

definition ex_wire :: cborSnapshot where "ex_wire = projr (toWireSnapshot (Snapshot_of ex4))"

definition ex_enc :: encoder where "ex_enc ws = (if ws = ex_wire then Some ''x'' else None)"






section \<open>Properties\<close>



text \<open>C12. Saving is atomic under every schedule of I/O errors. Either it succeeds, the
  snapshot file holds exactly the encoded index and the index is clean, or it fails, the
  snapshot file is what it was before, and the index and its dirty flag are unchanged.\<close>

theorem Save_atomic:
  "case Save cborEnc idx dir fs of (r, idx', fs') \<Rightarrow>
     r = Inr () \<and> idx' = MarkClean idx
       \<and> (\<exists>d. Marshal cborEnc idx = Inr d \<and> map_of (files fs') (dir @ [snapshotFile]) = Some d)
     \<or> (\<exists>e. r = Inl e) \<and> idx' = idx
       \<and> map_of (files fs') (dir @ [snapshotFile]) = map_of (files fs) (dir @ [snapshotFile])"
proof -
  obtain r idx' fs' where s: "Save cborEnc idx dir fs = (r, idx', fs')" by (cases "Save cborEnc idx dir fs")
  from Save_cases [OF s] show ?thesis unfolding s by simp
qed

text \<open>C13. An index that has a live extent in a chunk whose identifier does not start with
  \<^verbatim>\<open>chunk-\<close> cannot be persisted at all: encoding and saving both fail, the old snapshot
  file stays, and the index stays dirty. The identifiers the compactor gives to its
  output chunks are of this kind.\<close>

theorem foreign_chunk_not_persistable:
  assumes "e \<in> set (LiveExtents idx)" and "\<not> HasPrefix (ChunkID e) chunkIDPrefix"
  shows "(\<exists>err. Marshal cborEnc idx = Inl err)
    \<and> (\<exists>err. Save cborEnc idx dir fs = (Inl err, idx, fs))"
proof -
  have "parseChunkSeq (ChunkID e) = Inl (BadChunkID (ChunkID e))"
    using assms(2) by (simp add: parseChunkSeq_def)
  then obtain err where "toWireSnapshot (Snapshot_of idx) = Inl err"
    using wire_rejects [OF assms(1)] by blast
  then show ?thesis by (simp add: Marshal_def Save_def)
qed

theorem foreign_chunk_not_persistable_witness:
  "\<exists>err. Marshal ex_enc (RemapExtents [((''chunk-00000000'', 0), (ex_ext 0 10)\<lparr>ChunkID := ''compacted-7-0''\<rparr>)] ex4)
     = Inl err"
proof -
  let ?i = "RemapExtents [((''chunk-00000000'', 0), (ex_ext 0 10)\<lparr>ChunkID := ''compacted-7-0''\<rparr>)] ex4"
  let ?e = "(ex_ext 0 10)\<lparr>ChunkID := ''compacted-7-0''\<rparr>"
  have "?e \<in> set (LiveExtents ?i)" "\<not> HasPrefix (ChunkID ?e) chunkIDPrefix" by code_simp+
  then show ?thesis using foreign_chunk_not_persistable [of ?e ?i ex_enc] by blast
qed



end
