(* ===== verification/Store_Spec.thy ===== *)
theory Store_Spec
  imports Go_OS
begin

text \<open>
  The interface of \<^verbatim>\<open>internal/chunks/store.go\<close>. A \<^verbatim>\<open>Store\<close> value is a record of
  operations over a state \<open>'s\<close>: the local file system, or whatever a remote
  service keeps. \<open>store_contract\<close> states what the clients rely on, through the
  abstraction \<open>objs\<close> from states to the objects the store holds, for the
  identifiers that are plain file names of safe characters, not ending in \<^verbatim>\<open>.tmp\<close> and not the
  reserved name \<^verbatim>\<open>index.cbor\<close>, and the states that satisfy \<open>swf\<close>. \<open>store_live\<close> adds that the
  operations succeed in the states that satisfy \<open>good\<close>.
\<close>

datatype serror = SNotFound | SFail | SRange | STooBig | SPanic | SHang

record 's Store =
  Put :: "string \<Rightarrow> bytes \<Rightarrow> 's \<Rightarrow> (serror + unit) \<times> 's"
  GetRange :: "string \<Rightarrow> int \<Rightarrow> int \<Rightarrow> 's \<Rightarrow> (serror + bytes) \<times> 's"
  Delete :: "string \<Rightarrow> 's \<Rightarrow> (serror + unit) \<times> 's"
  ListIDs :: "'s \<Rightarrow> (serror + string list) \<times> 's"
  SizeOf :: "string \<Rightarrow> 's \<Rightarrow> (serror + int) \<times> 's"

text \<open>The characters of identifiers: letters, digits, hyphens, underscores and dots.\<close>

definition safe_char :: "char \<Rightarrow> bool" where
  "safe_char c \<longleftrightarrow> is_digit c \<or> (65 \<le> (of_char c :: nat) \<and> (of_char c :: nat) \<le> 90)
     \<or> (97 \<le> (of_char c :: nat) \<and> (of_char c :: nat) \<le> 122) \<or> c \<in> {CHR ''.'', CHR ''_'', CHR ''-''}"

definition object_id :: "string \<Rightarrow> bool" where
  "object_id i \<longleftrightarrow> plain_name i \<and> list_all safe_char i \<and> \<not> suffix ''.tmp'' i \<and> i \<noteq> ''index.cbor''"

type_synonym objects = "string \<rightharpoonup> bytes"

locale store_contract =
  fixes S :: "'s Store" and objs :: "'s \<Rightarrow> objects" and swf :: "'s \<Rightarrow> bool"
  assumes put_wf: "swf s \<Longrightarrow> object_id i \<Longrightarrow> Put S i d s = (r, s') \<Longrightarrow> swf s'"
    and put_ok: "swf s \<Longrightarrow> object_id i \<Longrightarrow> Put S i d s = (Inr (), s') \<Longrightarrow> objs s' = (objs s)(i \<mapsto> d)"
    and put_err: "swf s \<Longrightarrow> object_id i \<Longrightarrow> Put S i d s = (Inl e, s') \<Longrightarrow>
      objs s' = objs s \<or> objs s' = (objs s)(i \<mapsto> d)"
    and get_keeps: "swf s \<Longrightarrow> GetRange S i off n s = (rg, s') \<Longrightarrow> swf s' \<and> objs s' = objs s"
    and get_ok: "swf s \<Longrightarrow> object_id i \<Longrightarrow> 0 \<le> off \<Longrightarrow> 0 < n \<Longrightarrow> GetRange S i off n s = (Inr b, s') \<Longrightarrow>
      \<exists>d. objs s i = Some d \<and> (off + n \<le> int (length d) \<longrightarrow> b = byte_slice off n d)"
    and get_empty: "swf s \<Longrightarrow> object_id i \<Longrightarrow> objs s i = Some [] \<Longrightarrow> GetRange S i 0 0 s = (Inr b, s') \<Longrightarrow> b = []"
    and delete_wf: "swf s \<Longrightarrow> object_id i \<Longrightarrow> Delete S i s = (r, s') \<Longrightarrow> swf s'"
    and delete_ok: "swf s \<Longrightarrow> object_id i \<Longrightarrow> Delete S i s = (Inr (), s') \<Longrightarrow> objs s' = (objs s)(i := None)"
    and delete_err: "swf s \<Longrightarrow> object_id i \<Longrightarrow> Delete S i s = (Inl e, s') \<Longrightarrow>
      objs s' = objs s \<or> objs s' = (objs s)(i := None)"
    and list_keeps: "swf s \<Longrightarrow> ListIDs S s = (rl, s') \<Longrightarrow> swf s' \<and> objs s' = objs s"
    and list_ok: "swf s \<Longrightarrow> ListIDs S s = (Inr ids, s') \<Longrightarrow> object_id i \<Longrightarrow> i \<in> set ids \<longleftrightarrow> objs s i \<noteq> None"
    and size_keeps: "swf s \<Longrightarrow> SizeOf S i s = (rn, s') \<Longrightarrow> swf s' \<and> objs s' = objs s"
    and size_ok: "swf s \<Longrightarrow> object_id i \<Longrightarrow> SizeOf S i s = (Inr n, s') \<Longrightarrow>
      \<exists>d. objs s i = Some d \<and> n = int (length d)"
begin

lemma put_cases:
  assumes "swf s" and "object_id i" and "Put S i d s = (r, s')"
  obtains (ok) "r = Inr ()" "objs s' = (objs s)(i \<mapsto> d)"
  | (lost) e where "r = Inl e" "objs s' = objs s"
  | (late) e where "r = Inl e" "objs s' = (objs s)(i \<mapsto> d)"
proof (cases r)
  case (Inl e)
  with assms put_err [OF assms(1,2)] lost late show ?thesis by blast
next
  case (Inr u)
  with assms put_ok [OF assms(1,2)] ok show ?thesis by simp
qed

lemma delete_cases:
  assumes "swf s" and "object_id i" and "Delete S i s = (r, s')"
  shows "objs s' = objs s \<or> objs s' = (objs s)(i := None)"
  using assms delete_ok [OF assms(1,2)] delete_err [OF assms(1,2)] by (cases r) auto

end

locale store_live = store_contract +
  fixes good :: "'a \<Rightarrow> bool"
  assumes good_wf: "good s \<Longrightarrow> swf s"
    and put_live: "good s \<Longrightarrow> object_id i \<Longrightarrow> \<exists>s'. Put S i d s = (Inr (), s') \<and> good s'"
    and get_live: "good s \<Longrightarrow> object_id i \<Longrightarrow> objs s i = Some d \<Longrightarrow> 0 \<le> off \<Longrightarrow> 0 < n \<Longrightarrow>
      off + n \<le> int (length d) \<Longrightarrow> \<exists>b s'. GetRange S i off n s = (Inr b, s') \<and> good s'"
    and delete_live: "good s \<Longrightarrow> object_id i \<Longrightarrow> \<exists>s'. Delete S i s = (Inr (), s') \<and> good s'"
    and list_live: "good s \<Longrightarrow> \<exists>ids s'. ListIDs S s = (Inr ids, s') \<and> good s'"
    and size_live: "good s \<Longrightarrow> object_id i \<Longrightarrow> objs s i \<noteq> None \<Longrightarrow>
      \<exists>n s'. SizeOf S i s = (Inr n, s') \<and> good s'"
begin

lemma get_exact:
  assumes "good s" and "object_id i" and "objs s i = Some d" and "0 \<le> off" and "0 < n"
    and "off + n \<le> int (length d)"
  obtains s' where "GetRange S i off n s = (Inr (byte_slice off n d), s')" and "good s'" and "objs s' = objs s"
proof -
  note w = good_wf [OF assms(1)]
  from get_live [OF assms] obtain b s' where g: "GetRange S i off n s = (Inr b, s')" and "good s'" by blast
  moreover from get_ok [OF w assms(2,4,5) g] assms(3,6) have "b = byte_slice off n d" by auto
  ultimately show ?thesis using that get_keeps [OF w g] by simp
qed

lemma put_exact:
  assumes "good s" and "object_id i"
  obtains s' where "Put S i d s = (Inr (), s')" and "good s'" and "objs s' = (objs s)(i \<mapsto> d)"
  using put_live [OF assms, of d] put_ok [OF good_wf [OF assms(1)] assms(2), of d] that by auto

lemma size_exact:
  assumes "good s" and "object_id i" and "objs s i = Some d"
  obtains s' where "SizeOf S i s = (Inr (int (length d)), s')" and "good s'" and "objs s' = objs s"
proof -
  note w = good_wf [OF assms(1)]
  from size_live [OF assms(1,2)] assms(3) obtain n s' where g: "SizeOf S i s = (Inr n, s')" and "good s'" by auto
  with size_ok [OF w assms(2) g] assms(3) size_keeps [OF w g] that show ?thesis by auto
qed

end

end
