(* ===== verification/Local_Store.thy ===== *)
theory Local_Store
  imports Store_Spec
begin

text \<open>
  \<^verbatim>\<open>internal/chunks/local.go\<close>: a store whose objects are the files of one
  directory. Its methods are serialised by a lock, so each is one function of the
  file system. The store implements the contract for the identifiers that are
  plain file names and do not end in \<^verbatim>\<open>.tmp\<close>, under every schedule of I/O errors,
  and is live when no error is scheduled.
\<close>

section \<open>Operations\<close>

definition NewLocalStore :: "path \<Rightarrow> osfs \<Rightarrow> (serror + path) \<times> osfs" where
  "NewLocalStore dir fs =
     (case MkdirAll dir fs of (Inl e, fs') \<Rightarrow> (Inl SFail, fs') | (Inr _, fs') \<Rightarrow> (Inr dir, fs'))"

definition local_path :: "path \<Rightarrow> string \<Rightarrow> path" where
  "local_path dir i = Join dir i"

definition local_Put :: "path \<Rightarrow> string \<Rightarrow> bytes \<Rightarrow> osfs \<Rightarrow> (serror + unit) \<times> osfs" where
  "local_Put dir i d fs =
     (let p = local_path dir i; tmp = path_suffix p ''.tmp''
      in case WriteFile tmp d fs of
           (Inl e, fs1) \<Rightarrow> (Inl SFail, fs1)
         | (Inr _, fs1) \<Rightarrow>
             (case os_Rename tmp p fs1 of
                (Inl e, fs2) \<Rightarrow> (Inl SFail, fs2)
              | (Inr _, fs2) \<Rightarrow> (Inr (), fs2)))"

definition local_GetRange :: "path \<Rightarrow> string \<Rightarrow> int \<Rightarrow> int \<Rightarrow> osfs \<Rightarrow> (serror + bytes) \<times> osfs" where
  "local_GetRange dir i off n fs =
     (case os_Open (local_path dir i) fs of
        (Inl e, fs1) \<Rightarrow> (Inl SFail, fs1)
      | (Inr h, fs1) \<Rightarrow>
          if n < 0 then (Inl SPanic, fs1)
          else (case ReadAt h off n fs1 of
                  (Inl e, fs2) \<Rightarrow> (Inl SFail, fs2)
                | (Inr b, fs2) \<Rightarrow> (Inr b, fs2)))"

definition local_Delete :: "path \<Rightarrow> string \<Rightarrow> osfs \<Rightarrow> (serror + unit) \<times> osfs" where
  "local_Delete dir i fs =
     (case os_Remove (local_path dir i) fs of
        (Inl e, fs1) \<Rightarrow> if e = ENOENT then (Inr (), fs1) else (Inl SFail, fs1)
      | (Inr _, fs1) \<Rightarrow> (Inr (), fs1))"

definition local_List :: "path \<Rightarrow> osfs \<Rightarrow> (serror + string list) \<times> osfs" where
  "local_List dir fs =
     (case ReadDir dir fs of
        (Inl e, fs1) \<Rightarrow> (Inl SFail, fs1)
      | (Inr es, fs1) \<Rightarrow> (Inr (map fst (filter (\<lambda>e. \<not> snd e) es)), fs1))"

definition local_Size :: "path \<Rightarrow> string \<Rightarrow> osfs \<Rightarrow> (serror + int) \<times> osfs" where
  "local_Size dir i fs =
     (case os_Stat_Size (local_path dir i) fs of
        (Inl e, fs1) \<Rightarrow> (Inl SFail, fs1)
      | (Inr n, fs1) \<Rightarrow> (Inr n, fs1))"

definition LocalStore :: "path \<Rightarrow> osfs Store" where
  "LocalStore dir = \<lparr>Put = local_Put dir, GetRange = local_GetRange dir, Delete = local_Delete dir,
     ListIDs = local_List dir, SizeOf = local_Size dir\<rparr>"

section \<open>The objects it holds\<close>

definition local_objs :: "path \<Rightarrow> osfs \<Rightarrow> objects" where
  "local_objs dir fs i = (if object_id i then map_of (files fs) (dir @ [i]) else None)"

definition no_subdirs :: "path \<Rightarrow> osfs \<Rightarrow> bool" where
  "no_subdirs dir fs \<longleftrightarrow> (\<forall>i. dir @ [i] \<notin> set (dirs fs))"

definition local_good :: "path \<Rightarrow> osfs \<Rightarrow> bool" where
  "local_good dir fs \<longleftrightarrow> faults fs = [] \<and> dir \<in> set (dirs fs) \<and> no_subdirs dir fs"

lemma tmp_not_id: "object_id i \<Longrightarrow> i \<noteq> j @ ''.tmp''"
  by (auto simp: object_id_def suffix_def)

lemma local_path_id [simp]: "object_id i \<Longrightarrow> local_path dir i = dir @ [i]"
  by (simp add: local_path_def object_id_def)

lemma local_objs_files: "files fs' = files fs \<Longrightarrow> local_objs dir fs' = local_objs dir fs"
  by (simp add: local_objs_def fun_eq_iff)

lemma local_objs_tmp:
  "object_id i \<Longrightarrow> files fs' = AList.update (dir @ [i @ ''.tmp'']) d (files fs) \<Longrightarrow>
   local_objs dir fs' = local_objs dir fs"
  by (auto simp: local_objs_def fun_eq_iff tmp_not_id)

lemma local_objs_rename:
  assumes "object_id i" and "files fs1 = AList.update (dir @ [i @ ''.tmp'']) d (files fs)"
    and "map_of (files fs1) (dir @ [i @ ''.tmp'']) = Some d'"
    and "files fs' = AList.update (dir @ [i]) d' (AList.delete (dir @ [i @ ''.tmp'']) (files fs1))"
  shows "local_objs dir fs' = (local_objs dir fs)(i \<mapsto> d)"
  using assms by (auto simp: local_objs_def fun_eq_iff tmp_not_id)

text \<open>Either the new object is there or the old objects are untouched: no partial write shows.\<close>

lemma local_Put_cases:
  assumes id: "object_id i" and p: "local_Put dir i d fs = (r, fs')"
  shows "r = Inr () \<and> local_objs dir fs' = (local_objs dir fs)(i \<mapsto> d)
    \<or> r = Inl SFail \<and> local_objs dir fs' = local_objs dir fs"
proof -
  obtain r1 fs1 where w: "WriteFile (dir @ [i @ ''.tmp'']) d fs = (r1, fs1)" by force
  from w show ?thesis
  proof (cases rule: WriteFile_cases)
    case ok
    obtain r2 fs2 where rn: "os_Rename (dir @ [i @ ''.tmp'']) (dir @ [i]) fs1 = (r2, fs2)" by force
    then show ?thesis
    proof (cases rule: os_Rename_cases)
      case (ok d')
      with w rn p id \<open>r1 = Inr ()\<close> local_objs_rename [OF id \<open>files fs1 = _\<close> ok(2,3)] show ?thesis
        by (auto simp: local_Put_def Let_def)
    next
      case (fail e)
      with w rn p id \<open>r1 = Inr ()\<close> local_objs_tmp [OF id \<open>files fs1 = _\<close>] local_objs_files [of fs2 fs1 dir]
      show ?thesis by (auto simp: local_Put_def Let_def)
    qed
  next
    case (fail e)
    with w p id local_objs_files [of fs1 fs dir] show ?thesis by (auto simp: local_Put_def Let_def)
  next
    case (part e k)
    with w p id local_objs_tmp [OF id part(2)] show ?thesis by (auto simp: local_Put_def Let_def)
  qed
qed

lemma local_GetRange_keeps: "local_GetRange dir i off n fs = (r, fs') \<Longrightarrow> files fs' = files fs \<and> dirs fs' = dirs fs"
  by (auto simp: local_GetRange_def split: prod.splits sum.splits if_splits dest!: read_calls_keep)

lemma local_GetRange_ok:
  assumes "object_id i" and "0 < n" and "local_GetRange dir i off n fs = (Inr b, fs')"
  shows "\<exists>d. map_of (files fs) (dir @ [i]) = Some d \<and> off + n \<le> int (length d) \<and> b = byte_slice off n d"
  using assms
  by (auto simp: local_GetRange_def os_Open_def ReadAt_def Let_def
      split: prod.splits sum.splits option.splits if_splits dest!: os_tick_keeps)

lemma local_Delete_cases:
  assumes "no_subdirs dir fs" and "object_id i" and "local_Delete dir i fs = (r, fs')"
  shows "r = Inr () \<and> local_objs dir fs' = (local_objs dir fs)(i := None)
    \<or> r = Inl SFail \<and> local_objs dir fs' = local_objs dir fs"
  using assms
  by (auto simp: local_Delete_def os_Remove_def local_objs_def Let_def fun_eq_iff
      split: prod.splits sum.splits option.splits if_splits dest!: os_tick_keeps)

lemma local_List_set:
  assumes "local_List dir fs = (Inr ids, fs')"
  shows "set ids = set (entry_names dir (map fst (files fs)))"
proof -
  obtain f fs1 where t: "os_tick fs = (f, fs1)" by force
  from assms t have "ids = map fst (filter (\<lambda>e. \<not> snd e)
      (sort_key fst (map (\<lambda>x. (x, False)) (entry_names dir (map fst (files fs1)))
        @ map (\<lambda>x. (x, True)) (entry_names dir (remdups (dirs fs1))))))"
    by (auto simp: local_List_def ReadDir_def Let_def split: if_splits)
  then have "set ids = fst ` {e \<in> (\<lambda>x. (x, False)) ` set (entry_names dir (map fst (files fs1)))
      \<union> (\<lambda>x. (x, True)) ` set (entry_names dir (remdups (dirs fs1))). \<not> snd e}"
    by (simp only: set_map set_filter set_sort set_append)
  also have "\<dots> = set (entry_names dir (map fst (files fs1)))" by force
  finally show ?thesis using os_tick_keeps [OF t] by simp
qed

lemma entry_names_mem: "i \<in> set (entry_names dir ps) \<longleftrightarrow> dir @ [i] \<in> set ps"
proof
  assume "i \<in> set (entry_names dir ps)"
  then obtain q where "q \<in> set ps" "q \<noteq> []" "butlast q = dir" "last q = i" by (auto simp: entry_names_def)
  then show "dir @ [i] \<in> set ps" using append_butlast_last_id by metis
next
  assume "dir @ [i] \<in> set ps"
  then show "i \<in> set (entry_names dir ps)"
    by (auto simp: entry_names_def intro: rev_image_eqI [of "dir @ [i]"])
qed

lemma local_List_mem:
  assumes "local_List dir fs = (Inr ids, fs')" and "object_id i"
  shows "i \<in> set ids \<longleftrightarrow> local_objs dir fs i \<noteq> None"
  using assms(2) local_List_set [OF assms(1)]
  by (simp add: local_objs_def map_of_eq_None_iff entry_names_mem)

lemma local_Size_ok:
  assumes "local_Size dir i fs = (Inr n, fs')" and "object_id i" and "no_subdirs dir fs"
  shows "\<exists>d. local_objs dir fs i = Some d \<and> n = int (length d)"
  using assms
  by (auto simp: local_Size_def os_Stat_Size_def local_objs_def no_subdirs_def Let_def
      split: prod.splits sum.splits option.splits if_splits dest!: os_tick_keeps)

lemma local_dirs:
  "local_Put dir i d fs = (r, fs') \<Longrightarrow> dirs fs' = dirs fs"
  "local_GetRange dir i off n fs = (r1, fs') \<Longrightarrow> dirs fs' = dirs fs"
  "local_Delete dir i fs = (r2, fs') \<Longrightarrow> set (dirs fs') \<subseteq> set (dirs fs)"
  "local_List dir fs = (r3, fs') \<Longrightarrow> dirs fs' = dirs fs \<and> files fs' = files fs"
  "local_Size dir i fs = (r4, fs') \<Longrightarrow> dirs fs' = dirs fs \<and> files fs' = files fs"
proof -
  show "local_Put dir i d fs = (r, fs') \<Longrightarrow> dirs fs' = dirs fs"
    by (auto simp: local_Put_def Let_def split: prod.splits sum.splits
        elim!: WriteFile_cases os_Rename_cases)
  show "local_GetRange dir i off n fs = (r1, fs') \<Longrightarrow> dirs fs' = dirs fs"
    using local_GetRange_keeps by blast
  show "local_Delete dir i fs = (r2, fs') \<Longrightarrow> set (dirs fs') \<subseteq> set (dirs fs)"
    by (auto simp: local_Delete_def os_Remove_def Let_def split: prod.splits sum.splits if_splits
        dest!: os_tick_keeps)
  show "local_List dir fs = (r3, fs') \<Longrightarrow> dirs fs' = dirs fs \<and> files fs' = files fs"
    by (auto simp: local_List_def split: prod.splits sum.splits dest!: read_calls_keep(5))
  show "local_Size dir i fs = (r4, fs') \<Longrightarrow> dirs fs' = dirs fs \<and> files fs' = files fs"
    by (auto simp: local_Size_def split: prod.splits sum.splits dest!: read_calls_keep(4))
qed

section \<open>The contract\<close>

lemma LocalStore_sel [simp]:
  "Put (LocalStore dir) = local_Put dir" "GetRange (LocalStore dir) = local_GetRange dir"
  "Delete (LocalStore dir) = local_Delete dir" "ListIDs (LocalStore dir) = local_List dir"
  "SizeOf (LocalStore dir) = local_Size dir"
  by (simp_all add: LocalStore_def)

interpretation loc: store_contract "LocalStore dir" "local_objs dir" "no_subdirs dir" for dir
proof (unfold_locales, goal_cases)
  case (1 s i d r s')
  then show ?case using local_dirs(1) [of dir i d s r s'] by (simp add: no_subdirs_def)
next
  case (2 s i d s')
  then show ?case using local_Put_cases [of i dir d s "Inr ()" s'] by simp
next
  case (3 s i d e s')
  then show ?case using local_Put_cases [of i dir d s "Inl e" s'] by simp
next
  case (4 s i off n rg s')
  then show ?case using local_GetRange_keeps [of dir i off n s rg s'] by (simp add: no_subdirs_def local_objs_def fun_eq_iff)
next
  case (5 s i off n b s')
  then show ?case using local_GetRange_ok [of i n dir off s b s'] by (auto simp: local_objs_def)
next
  case (6 s i b s')
  then show ?case
    by (auto simp: local_GetRange_def ReadAt_def Let_def split: prod.splits sum.splits if_splits)
next
  case (7 s i r s')
  then show ?case using local_dirs(3) [of dir i s r s'] by (auto simp: no_subdirs_def)
next
  case (8 s i s')
  then show ?case using local_Delete_cases [of dir s i "Inr ()" s'] by simp
next
  case (9 s i e s')
  then show ?case using local_Delete_cases [of dir s i "Inl e" s'] by simp
next
  case (10 s rl s')
  then show ?case using local_dirs(4) [of dir s rl s'] by (simp add: no_subdirs_def local_objs_def fun_eq_iff)
next
  case (11 s ids s' i)
  then show ?case using local_List_mem [of dir s ids s' i] by simp
next
  case (12 s i rn s')
  then show ?case using local_dirs(5) [of dir i s rn s'] by (simp add: no_subdirs_def local_objs_def fun_eq_iff)
next
  case (13 s i n s')
  then show ?case using local_Size_ok [of dir i s n s'] by simp
qed

lemma local_Put_live:
  assumes "local_good dir s" and "object_id i"
  shows "\<exists>s'. local_Put dir i d s = (Inr (), s') \<and> local_good dir s'"
proof -
  let ?tmp = "dir @ [i @ ''.tmp'']"
  have w: "writable ?tmp s" "writable (dir @ [i]) s" and f: "faults s = []"
    using assms(1) by (simp_all add: writable_def local_good_def no_subdirs_def)
  have "WriteFile ?tmp d s = (Inr (), put_file ?tmp d s)"
    using w f by (simp add: WriteFile_def)
  moreover have "os_Rename ?tmp (dir @ [i]) (put_file ?tmp d s) =
      (Inr (), put_file (dir @ [i]) d ((put_file ?tmp d s)\<lparr>files := AList.delete ?tmp (files (put_file ?tmp d s))\<rparr>))"
    using w f by (simp add: os_Rename_def writable_def)
  ultimately show ?thesis
    using assms by (simp add: local_Put_def Let_def local_good_def no_subdirs_def)
qed

lemma local_Delete_live:
  assumes "local_good dir s" and "object_id i"
  shows "\<exists>s'. local_Delete dir i s = (Inr (), s') \<and> local_good dir s'"
proof -
  have f: "faults s = []" and d: "dir @ [i] \<notin> set (dirs s)"
    using assms(1) by (simp_all add: local_good_def no_subdirs_def)
  then show ?thesis
    using assms by (cases "map_of (files s) (dir @ [i])")
      (simp_all add: local_Delete_def os_Remove_def local_good_def no_subdirs_def)
qed

interpretation loc: store_live "LocalStore dir" "local_objs dir" "no_subdirs dir" "local_good dir" for dir
proof (unfold_locales, goal_cases)
  case (1 s)
  then show ?case by (simp add: local_good_def)
next
  case (2 s i d)
  then show ?case by (simp add: local_Put_live)
next
  case (3 s i d off n)
  then show ?case
    by (simp add: local_GetRange_def os_Open_def ReadAt_def local_good_def local_objs_def)
next
  case (4 s i)
  then show ?case by (simp add: local_Delete_live)
next
  case (5 s)
  then show ?case by (simp add: local_List_def ReadDir_def local_good_def)
next
  case (6 s i)
  then show ?case
    by (auto simp: local_Size_def os_Stat_Size_def local_good_def local_objs_def)
qed

end
