(* ===== verification/Chunk_Cache.thy ===== *)
theory Chunk_Cache
  imports Local_Store
begin

text \<open>
  \<^verbatim>\<open>internal/chunks/cache.go\<close>: the local disk cache of sealed chunks. This theory has
  the operations as one goroutine executes them with no other fetch of the same chunk
  in flight; the interleaving of several goroutines is the subject of \<^verbatim>\<open>Cache_Conc\<close>.

  A cached file holds the whole chunk. \<open>cache_ok\<close> says so: what is cached under an
  identifier is the object the store has under it, unless the store has deleted it.
  The slice expression at the end of \<^verbatim>\<open>readRange\<close> is checked against the length of the
  fetched data.
\<close>

section \<open>Operations\<close>

definition newChunkCache :: "path \<Rightarrow> osfs \<Rightarrow> (serror + path) \<times> osfs" where
  "newChunkCache baseDir fs =
     (let dir = Join baseDir ''chunks''
      in case MkdirAll dir fs of (Inl e, fs1) \<Rightarrow> (Inl SFail, fs1) | (Inr _, fs1) \<Rightarrow> (Inr dir, fs1))"

definition readFileSlice :: "path \<Rightarrow> int \<Rightarrow> int \<Rightarrow> osfs \<Rightarrow> (serror + bytes) \<times> osfs" where
  "readFileSlice p off n fs =
     (case os_Open p fs of
        (Inl e, fs1) \<Rightarrow> (Inl (if e = ENOENT then SNotFound else SFail), fs1)
      | (Inr h, fs1) \<Rightarrow>
          if n < 0 then (Inl SPanic, fs1)
          else (case ReadAt h off n fs1 of
                  (Inl e, fs2) \<Rightarrow> (Inl SFail, fs2)
                | (Inr b, fs2) \<Rightarrow> (Inr b, fs2)))"

definition writeAtomic :: "path \<Rightarrow> bytes \<Rightarrow> osfs \<Rightarrow> (serror + unit) \<times> osfs" where
  "writeAtomic p d fs =
     (let tmp = path_suffix p ''.tmp''
      in case WriteFile tmp d fs of
           (Inl e, fs1) \<Rightarrow> (Inl SFail, fs1)
         | (Inr _, fs1) \<Rightarrow>
             (case os_Rename tmp p fs1 of
                (Inl e, fs2) \<Rightarrow> (Inl SFail, snd (os_Remove tmp fs2))
              | (Inr _, fs2) \<Rightarrow> (Inr (), fs2)))"

definition cache_put :: "path \<Rightarrow> string \<Rightarrow> bytes \<Rightarrow> osfs \<Rightarrow> (serror + unit) \<times> osfs" where
  "cache_put dir i d fs = writeAtomic (Join dir i) d fs"

definition fetchFullChunk :: "'s Store \<Rightarrow> string \<Rightarrow> 's \<Rightarrow> (serror + bytes) \<times> 's" where
  "fetchFullChunk S i s =
     (case SizeOf S i s of
        (Inl e, s1) \<Rightarrow> (Inl e, s1)
      | (Inr n, s1) \<Rightarrow> GetRange S i 0 n s1)"

definition slice_expr :: "int \<Rightarrow> int \<Rightarrow> bytes \<Rightarrow> serror + bytes" where
  "slice_expr off n d =
     (let hi = i64 (off + n)
      in if 0 \<le> off \<and> off \<le> hi \<and> hi \<le> int (length d) then Inr (byte_slice off (hi - off) d) else Inl SPanic)"

definition fetch_and_cache ::
  "'s Store \<Rightarrow> path \<Rightarrow> string \<Rightarrow> int \<Rightarrow> int \<Rightarrow> 's \<Rightarrow> osfs \<Rightarrow> (serror + bytes) \<times> 's \<times> osfs" where
  "fetch_and_cache S dir i off n s fs =
     (case fetchFullChunk S i s of
        (Inl e, s1) \<Rightarrow> (Inl e, s1, fs)
      | (Inr d, s1) \<Rightarrow>
          (case writeAtomic (Join dir i) d fs of
             (Inl e, fs1) \<Rightarrow> (Inl e, s1, fs1)
           | (Inr _, fs1) \<Rightarrow> (slice_expr off n d, s1, fs1)))"

definition readRange ::
  "'s Store \<Rightarrow> path \<Rightarrow> string \<Rightarrow> int \<Rightarrow> int \<Rightarrow> 's \<Rightarrow> osfs \<Rightarrow> (serror + bytes) \<times> 's \<times> osfs" where
  "readRange S dir i off n s fs =
     (case readFileSlice (Join dir i) off n fs of
        (Inr d, fs1) \<Rightarrow> (Inr d, s, fs1)
      | (Inl e, fs1) \<Rightarrow>
          if e = SPanic then (Inl SPanic, s, fs1)
          else (case readFileSlice (Join dir i) off n fs1 of
                  (Inr d, fs2) \<Rightarrow> (Inr d, s, fs2)
                | (Inl e, fs2) \<Rightarrow>
                    if e = SPanic then (Inl SPanic, s, fs2)
                    else fetch_and_cache S dir i off n s fs2))"

section \<open>Files\<close>

definition cache_ok :: "objects \<Rightarrow> path \<Rightarrow> osfs \<Rightarrow> bool" where
  "cache_ok objects dir fs \<longleftrightarrow> (\<forall>i c. object_id i \<longrightarrow> map_of (files fs) (dir @ [i]) = Some c \<longrightarrow>
     objects i = None \<or> objects i = Some c)"

lemma object_Join [simp]: "object_id i \<Longrightarrow> Join dir i = dir @ [i]"
  by (simp add: object_id_def)

lemma readFileSlice_keeps: "readFileSlice p off n fs = (r, fs') \<Longrightarrow> files fs' = files fs \<and> dirs fs' = dirs fs"
  by (auto simp: readFileSlice_def split: prod.splits sum.splits if_splits dest!: read_calls_keep)

lemma readFileSlice_ok:
  assumes "readFileSlice p off n fs = (Inr b, fs')" and "0 < n"
  shows "\<exists>d. map_of (files fs) p = Some d \<and> 0 \<le> off \<and> off + n \<le> int (length d) \<and> b = byte_slice off n d"
  using assms
  by (auto simp: readFileSlice_def os_Open_def ReadAt_def Let_def
      split: prod.splits sum.splits option.splits if_splits dest!: os_tick_keeps)

lemma readFileSlice_hit:
  assumes "map_of (files fs) p = Some d" and "faults fs = []" and "0 \<le> off" and "0 < n" and "off + n \<le> int (length d)"
  shows "readFileSlice p off n fs = (Inr (byte_slice off n d), fs)"
  using assms by (simp add: readFileSlice_def os_Open_def ReadAt_def)

lemma os_Remove_files:
  assumes "os_Remove p fs = (r, fs')"
  shows "q \<noteq> p \<Longrightarrow> map_of (files fs') q = map_of (files fs) q" and "set (dirs fs') \<subseteq> set (dirs fs)"
    and "map_of (files fs) p \<noteq> None \<Longrightarrow> dirs fs' = dirs fs"
  using assms
  by (auto simp: os_Remove_def Let_def split: prod.splits if_splits dest!: os_tick_keeps)

lemma writeAtomic_files:
  assumes w: "writeAtomic (dir @ [i]) d fs = (r, fs')" and q: "q \<noteq> dir @ [i @ ''.tmp'']"
  shows "r = Inr () \<and> map_of (files fs') q = (if q = dir @ [i] then Some d else map_of (files fs) q)
    \<or> r = Inl SFail \<and> map_of (files fs') q = map_of (files fs) q"
proof -
  let ?tmp = "dir @ [i @ ''.tmp'']"
  obtain r1 fs1 where w1: "WriteFile ?tmp d fs = (r1, fs1)" by force
  obtain r2 fs2 where n: "os_Rename ?tmp (dir @ [i]) fs1 = (r2, fs2)" by force
  obtain r3 fs3 where m: "os_Remove ?tmp fs2 = (r3, fs3)" by force
  have W: "(r, fs') = (case r1 of Inl e \<Rightarrow> (Inl SFail, fs1) | Inr _ \<Rightarrow>
      (case r2 of Inl e \<Rightarrow> (Inl SFail, fs3) | Inr _ \<Rightarrow> (Inr (), fs2)))"
    using w by (auto simp: writeAtomic_def w1 n m Let_def split: sum.splits)
  have f1: "map_of (files fs1) q = map_of (files fs) q"
    using w1 q by (cases rule: WriteFile_cases) simp_all
  have t1: "r1 = Inr () \<Longrightarrow> map_of (files fs1) ?tmp = Some d"
    using w1 by (cases rule: WriteFile_cases) simp_all
  have f2: "r1 = Inr () \<Longrightarrow> r2 = Inr () \<Longrightarrow> map_of (files fs2) q = (if q = dir @ [i] then Some d else map_of (files fs) q)"
    and f2': "r2 = Inl e \<Longrightarrow> map_of (files fs2) q = map_of (files fs) q" for e
    using n t1 f1 q by (cases rule: os_Rename_cases; simp)+
  show ?thesis using W f1 f2 f2' os_Remove_files(1) [OF m q] by (auto split: sum.splits)
qed

lemma tmp_ne: "object_id i \<Longrightarrow> dir @ [i] \<noteq> dir @ [j @ ''.tmp'']"
  by (auto simp: object_id_def suffix_def)

lemma cache_ok_write:
  assumes "cache_ok objects dir fs" and "object_id i" and "writeAtomic (dir @ [i]) d fs = (r, fs')"
    and "objects i = Some d \<or> objects i = None"
  shows "cache_ok objects dir fs'"
  unfolding cache_ok_def
proof (intro allI impI)
  fix j c assume j: "object_id j" and c: "map_of (files fs') (dir @ [j]) = Some c"
  from writeAtomic_files [OF assms(3) tmp_ne [OF j]] c
  have "j = i \<and> c = d \<or> map_of (files fs) (dir @ [j]) = Some c" by (auto split: if_splits)
  then show "objects j = None \<or> objects j = Some c" using assms(1,4) j by (auto simp: cache_ok_def)
qed

lemma cache_ok_files: "cache_ok objects dir fs \<Longrightarrow> files fs' = files fs \<Longrightarrow> cache_ok objects dir fs'"
  by (simp add: cache_ok_def)

lemma writeAtomic_live:
  assumes "local_good dir fs" and "object_id i"
  shows "\<exists>fs'. writeAtomic (dir @ [i]) d fs = (Inr (), fs') \<and> local_good dir fs'"
proof -
  have "local_Put dir i d fs = writeAtomic (dir @ [i]) d fs
      \<or> (\<exists>e. fst (writeAtomic (dir @ [i]) d fs) = Inl e \<and> fst (local_Put dir i d fs) = Inl SFail)"
    using assms(2) by (auto simp: local_Put_def writeAtomic_def Let_def split: prod.splits sum.splits)
  with local_Put_live [OF assms, of d] show ?thesis by auto
qed

section \<open>Reading through the cache\<close>

lemma slice_expr_in:
  "0 \<le> off \<Longrightarrow> 0 \<le> n \<Longrightarrow> off + n \<le> int (length d) \<Longrightarrow> int (length d) < 2 ^ 63 \<Longrightarrow>
   slice_expr off n d = Inr (byte_slice off n d)"
  by (simp add: slice_expr_def i64_nonneg Let_def)

lemma byte_slice_all: "byte_slice 0 (int (length d)) d = d"
  by (simp add: byte_slice_def)

context store_contract
begin

lemma fetchFullChunk_keeps:
  assumes "swf s" and "fetchFullChunk S i s = (r, s')"
  shows "swf s' \<and> objs s' = objs s"
proof -
  obtain r1 s1 where z: "SizeOf S i s = (r1, s1)" by force
  note k = size_keeps [OF assms(1) z]
  show ?thesis
  proof (cases r1)
    case (Inl e)
    with z k assms(2) show ?thesis by (auto simp: fetchFullChunk_def)
  next
    case (Inr n)
    with z assms(2) have "GetRange S i 0 n s1 = (r, s')" by (simp add: fetchFullChunk_def)
    with k show ?thesis using get_keeps by metis
  qed
qed

lemma fetchFullChunk_whole:
  assumes w: "swf s" and i: "object_id i" and f: "fetchFullChunk S i s = (Inr d, s')"
  shows "objs s i = Some d"
proof -
  from f obtain n s1 where z: "SizeOf S i s = (Inr n, s1)" and g: "GetRange S i 0 n s1 = (Inr d, s')"
    by (auto simp: fetchFullChunk_def split: prod.splits sum.splits)
  from size_ok [OF w i z] obtain x where x: "objs s i = Some x" and n: "n = int (length x)" by blast
  note k = size_keeps [OF w z]
  show ?thesis
  proof (cases "x = []")
    case True
    then show ?thesis using get_empty [of s1 i d s'] k i x n g by simp
  next
    case False
    then show ?thesis using get_ok [of s1 i 0 n d s'] k i x n g by (simp add: byte_slice_all)
  qed
qed

lemma fetch_and_cache_safe:
  assumes w: "swf s" and i: "object_id i" and c: "cache_ok (objs s) dir fs"
    and f: "fetch_and_cache S dir i off n s fs = (r, s', fs')"
  shows "swf s' \<and> objs s' = objs s \<and> cache_ok (objs s) dir fs'"
    and "r = Inr b \<Longrightarrow> \<exists>d. objs s i = Some d \<and> slice_expr off n d = Inr b"
proof -
  obtain r1 s1 where ff: "fetchFullChunk S i s = (r1, s1)" by force
  note k = fetchFullChunk_keeps [OF w ff]
  have "(swf s' \<and> objs s' = objs s \<and> cache_ok (objs s) dir fs') \<and>
      (r = Inr b \<longrightarrow> (\<exists>d. objs s i = Some d \<and> slice_expr off n d = Inr b))"
  proof (cases r1)
    case (Inl e)
    with ff f k c show ?thesis by (auto simp: fetch_and_cache_def)
  next
    case (Inr d)
    then have d: "objs s i = Some d" using fetchFullChunk_whole [OF w i] ff by simp
    obtain r2 fs1 where wa: "writeAtomic (dir @ [i]) d fs = (r2, fs1)" by force
    have "cache_ok (objs s) dir fs1" by (rule cache_ok_write [OF c i wa]) (simp add: d)
    with ff f k i d Inr wa show ?thesis by (cases r2) (auto simp: fetch_and_cache_def)
  qed
  then show "swf s' \<and> objs s' = objs s \<and> cache_ok (objs s) dir fs'"
    and "r = Inr b \<Longrightarrow> \<exists>d. objs s i = Some d \<and> slice_expr off n d = Inr b" by blast+
qed

lemma readRange_safe:
  assumes w: "swf s" and i: "object_id i" and c: "cache_ok (objs s) dir fs"
    and f: "readRange S dir i off n s fs = (r, s', fs')"
  shows "swf s' \<and> objs s' = objs s \<and> cache_ok (objs s) dir fs'"
    and "r = Inr b \<Longrightarrow> 0 < n \<Longrightarrow> objs s i = Some d \<Longrightarrow> off + n \<le> int (length d) \<Longrightarrow> int (length d) < 2 ^ 63 \<Longrightarrow>
      b = byte_slice off n d"
proof -
  obtain r1 fs1 where r1: "readFileSlice (dir @ [i]) off n fs = (r1, fs1)" by force
  obtain r2 fs2 where r2: "readFileSlice (dir @ [i]) off n fs1 = (r2, fs2)" by force
  obtain r3 s3 fs3 where r3: "fetch_and_cache S dir i off n s fs2 = (r3, s3, fs3)"
    by (cases "fetch_and_cache S dir i off n s fs2")
  have c1: "cache_ok (objs s) dir fs1" and c2: "cache_ok (objs s) dir fs2"
    using readFileSlice_keeps [OF r1] readFileSlice_keeps [OF r2] c by (simp_all add: cache_ok_def)
  have R: "(r, s', fs') = (case r1 of Inr x \<Rightarrow> (Inr x, s, fs1) | Inl e \<Rightarrow>
      if e = SPanic then (Inl SPanic, s, fs1) else
      (case r2 of Inr x \<Rightarrow> (Inr x, s, fs2) | Inl e \<Rightarrow> if e = SPanic then (Inl SPanic, s, fs2) else (r3, s3, fs3)))"
    using f i by (auto simp: readRange_def r1 r2 r3 split: sum.splits)
  note F = fetch_and_cache_safe [OF w i c2 r3]
  show "swf s' \<and> objs s' = objs s \<and> cache_ok (objs s) dir fs'"
    using R F(1) w c1 c2 by (auto split: sum.splits if_splits)
  assume b: "r = Inr b" and n: "0 < n" and d: "objs s i = Some d" and len: "off + n \<le> int (length d)" "int (length d) < 2 ^ 63"
  have hit: "x = byte_slice off n d" if "readFileSlice (dir @ [i]) off n g = (Inr x, g')" "cache_ok (objs s) dir g" for x g g'
    using readFileSlice_ok [OF that(1) n] that(2) i d by (auto simp: cache_ok_def)
  from R b consider "r1 = Inr b" | "r2 = Inr b" | "r3 = Inr b" by (auto split: sum.splits if_splits)
  then show "b = byte_slice off n d"
  proof cases
    case 1
    then show ?thesis using hit r1 c by blast
  next
    case 2
    then show ?thesis using hit r2 c1 by blast
  next
    case 3
    then have sl: "slice_expr off n d = Inr b" using F(2) d by auto
    then have "0 \<le> off" by (auto simp: slice_expr_def Let_def split: if_splits)
    then show ?thesis using sl slice_expr_in [of off n d] n len by simp
  qed
qed

lemma readRange_files:
  assumes w: "swf s" and i: "object_id i" and f: "readRange S dir i off n s fs = (r, s', fs')" and j: "object_id j"
    and ne: "j \<noteq> i \<or> objs s i = None"
  shows "map_of (files fs') (dir @ [j]) = map_of (files fs) (dir @ [j])"
proof -
  have fc: "map_of (files g') (dir @ [j]) = map_of (files g) (dir @ [j])"
    if c: "fetch_and_cache S dir i off n s g = (x, t, g')" for x t g g'
  proof -
    obtain r1 s1 where ff: "fetchFullChunk S i s = (r1, s1)" by force
    show ?thesis
    proof (cases r1)
      case (Inl e)
      with ff c show ?thesis by (simp add: fetch_and_cache_def)
    next
      case (Inr d)
      then have "objs s i = Some d" using fetchFullChunk_whole [OF w i] ff by simp
      with ne have ji: "j \<noteq> i" by simp
      obtain r2 fs1 where wa: "writeAtomic (dir @ [i]) d g = (r2, fs1)" by force
      from c ff Inr wa i have "g' = fs1" by (auto simp: fetch_and_cache_def split: sum.splits)
      with writeAtomic_files [OF wa tmp_ne [OF j]] ji show ?thesis by auto
    qed
  qed
  obtain r1 fs1 where r1: "readFileSlice (dir @ [i]) off n fs = (r1, fs1)" by force
  obtain r2 fs2 where r2: "readFileSlice (dir @ [i]) off n fs1 = (r2, fs2)" by force
  obtain r3 s3 fs3 where r3: "fetch_and_cache S dir i off n s fs2 = (r3, s3, fs3)"
    by (cases "fetch_and_cache S dir i off n s fs2")
  have "fs' \<in> {fs1, fs2, fs3}"
    using f i by (auto simp: readRange_def r1 r2 r3 split: sum.splits if_splits)
  then show ?thesis using readFileSlice_keeps [OF r1] readFileSlice_keeps [OF r2] fc [OF r3] by auto
qed

end

context store_live
begin

lemma readRange_live:
  assumes g: "good s" and i: "object_id i" and c: "cache_ok (objs s) dir fs"
    and d: "objs s i = Some d" and r: "0 \<le> off" "0 < n" "off + n \<le> int (length d)" "int (length d) < 2 ^ 63"
    and fs: "local_good dir fs"
  shows "\<exists>s' fs'. readRange S dir i off n s fs = (Inr (byte_slice off n d), s', fs') \<and> good s' \<and> local_good dir fs'"
proof (cases "map_of (files fs) (dir @ [i])")
  case (Some x)
  then have "x = d" using c i d by (auto simp: cache_ok_def)
  with Some readFileSlice_hit [of fs "dir @ [i]" d off n] r fs i g show ?thesis
    by (simp add: readRange_def local_good_def)
next
  case None
  then have m: "readFileSlice (dir @ [i]) off n fs = (Inl SNotFound, fs)"
    using fs by (simp add: readFileSlice_def os_Open_def local_good_def no_subdirs_def)
  obtain s1 where z: "SizeOf S i s = (Inr (int (length d)), s1)" "good s1" "objs s1 = objs s"
    using size_exact [OF g i d] by blast
  have pos: "d \<noteq> []" using r by auto
  obtain s2 where gr: "GetRange S i 0 (int (length d)) s1 = (Inr d, s2)" "good s2"
    using get_exact [of s1 i d 0 "int (length d)"] z i d r pos byte_slice_all [of d] by auto
  have ff: "fetchFullChunk S i s = (Inr d, s2)" using z gr by (simp add: fetchFullChunk_def)
  obtain fs' where wa: "writeAtomic (dir @ [i]) d fs = (Inr (), fs')" "local_good dir fs'"
    using writeAtomic_live [OF fs i] by blast
  have "readRange S dir i off n s fs = (slice_expr off n d, s2, fs')"
    using m ff wa i by (simp add: readRange_def fetch_and_cache_def)
  then show ?thesis using slice_expr_in [of off n d] r gr wa by simp
qed

end

end
