(* ===== verification/Chunk_Store.thy ===== *)
theory Chunk_Store
  imports Chunk_Cache Index_Types
begin

text \<open>
  \<^verbatim>\<open>internal/chunks/chunk_store.go\<close>: the active chunk buffer in front of the backing
  store. The state is the record \<open>chunk_store\<close> together with the state of the backing
  store and the disk that holds the cache. Every method that changes the record does
  so under the mutex, so each is one function of the state.

  \<open>chunk_view\<close> is what the chunk store holds under an identifier: the buffer for the
  active chunk, the object of the backing store for any other.
\<close>

section \<open>State\<close>

record chunk_store =
  maxChunkSize :: int
  cache :: "path option"
  activeID :: string
  activeBuf :: bytes
  activeDirty :: bool
  nextSeq :: int

section \<open>Operations\<close>

definition chunkID :: "int \<Rightarrow> string" where
  "chunkID k = ''chunk-'' @ fmt_08d k"

definition NewChunkStore :: "int \<Rightarrow> chunk_store" where
  "NewChunkStore maxSize = \<lparr>maxChunkSize = maxSize, cache = None, activeID = chunkID 0, activeBuf = [],
     activeDirty = False, nextSeq = 1\<rparr>"

text \<open>\<^verbatim>\<open>Sscanf(id, "chunk-%08d", &seq)\<close>, \<open>None\<close> when it does not read one item.\<close>

definition scan_chunk_seq :: "string \<Rightarrow> int option" where
  "scan_chunk_seq i = (if HasPrefix i ''chunk-'' then scan_int_width 8 (drop 6 i) else None)"

definition max_seq :: "string list \<Rightarrow> int" where
  "max_seq ids = foldl (\<lambda>m i. case scan_chunk_seq i of None \<Rightarrow> m | Some k \<Rightarrow> if m < k then k else m) (- 1) ids"

definition RecoverNextSeq :: "'s Store \<Rightarrow> chunk_store \<Rightarrow> 's \<Rightarrow> (serror + unit) \<times> chunk_store \<times> 's" where
  "RecoverNextSeq S cs s =
     (case ListIDs S s of
        (Inl e, s1) \<Rightarrow> (Inl e, cs, s1)
      | (Inr ids, s1) \<Rightarrow>
          let m = max_seq ids
          in if m < 0 then (Inr (), cs, s1)
             else (Inr (), cs\<lparr>activeID := chunkID (i64 (m + 1)), nextSeq := i64 (i64 (m + 1) + 1)\<rparr>, s1))"

definition SetCacheDir :: "path \<Rightarrow> chunk_store \<Rightarrow> osfs \<Rightarrow> (serror + unit) \<times> chunk_store \<times> osfs" where
  "SetCacheDir baseDir cs fs =
     (case newChunkCache baseDir fs of
        (Inl e, fs1) \<Rightarrow> (Inl e, cs, fs1)
      | (Inr dir, fs1) \<Rightarrow> (Inr (), cs\<lparr>cache := Some dir\<rparr>, fs1))"

definition ActiveID :: "chunk_store \<Rightarrow> string" where "ActiveID cs = activeID cs"

definition sealLocked ::
  "'s Store \<Rightarrow> chunk_store \<Rightarrow> 's \<Rightarrow> osfs \<Rightarrow> (serror + unit) \<times> chunk_store \<times> 's \<times> osfs" where
  "sealLocked S cs s fs =
     (if activeBuf cs = []
      then (Inr (), cs\<lparr>activeID := chunkID (nextSeq cs), nextSeq := i64 (nextSeq cs + 1)\<rparr>, s, fs)
      else (case Put S (activeID cs) (activeBuf cs) s of
              (Inl e, s1) \<Rightarrow> (Inl e, cs, s1, fs)
            | (Inr _, s1) \<Rightarrow>
                let fs1 = (case cache cs of None \<Rightarrow> fs
                           | Some dir \<Rightarrow> snd (cache_put dir (activeID cs) (activeBuf cs) fs))
                in (Inr (), cs\<lparr>activeID := chunkID (nextSeq cs), nextSeq := i64 (nextSeq cs + 1),
                               activeBuf := [], activeDirty := False\<rparr>, s1, fs1)))"

definition Seal ::
  "'s Store \<Rightarrow> chunk_store \<Rightarrow> 's \<Rightarrow> osfs \<Rightarrow> (serror + unit) \<times> chunk_store \<times> 's \<times> osfs" where
  "Seal S cs s fs = sealLocked S cs s fs"

text \<open>The end of \<^verbatim>\<open>Append\<close>, after a rotation if there was one.\<close>

definition append_active :: "bytes \<Rightarrow> int \<Rightarrow> chunk_store \<Rightarrow> Extent \<times> chunk_store" where
  "append_active d fileOffset cs =
     (\<lparr>ChunkID = activeID cs, ChunkOffset = int (length (activeBuf cs)), Length = int (length d),
       FileOffset = fileOffset\<rparr>,
      cs\<lparr>activeBuf := activeBuf cs @ d, activeDirty := True\<rparr>)"

definition Append ::
  "'s Store \<Rightarrow> bytes \<Rightarrow> int \<Rightarrow> chunk_store \<Rightarrow> 's \<Rightarrow> osfs \<Rightarrow> (serror + Extent) \<times> chunk_store \<times> 's \<times> osfs" where
  "Append S d fileOffset cs s fs =
     (if maxChunkSize cs < int (length d) then (Inl STooBig, cs, s, fs)
      else
        let (r, cs1, s1, fs1) =
          (if maxChunkSize cs < i64 (int (length (activeBuf cs)) + int (length d))
           then sealLocked S cs s fs else (Inr (), cs, s, fs))
        in (case r of
              Inl e \<Rightarrow> (Inl e, cs1, s1, fs1)
            | Inr _ \<Rightarrow> let (ext, cs2) = append_active d fileOffset cs1 in (Inr ext, cs2, s1, fs1)))"

definition Read ::
  "'s Store \<Rightarrow> string \<Rightarrow> int \<Rightarrow> int \<Rightarrow> chunk_store \<Rightarrow> 's \<Rightarrow> osfs \<Rightarrow> (serror + bytes) \<times> 's \<times> osfs" where
  "Read S i off n cs s fs =
     (if i = activeID cs
      then (if int (length (activeBuf cs)) < i64 (off + n) then (Inl SRange, s, fs)
            else (slice_expr off n (activeBuf cs), s, fs))
      else (case cache cs of
              Some dir \<Rightarrow> readRange S dir i off n s fs
            | None \<Rightarrow> (case GetRange S i off n s of (r, s1) \<Rightarrow> (r, s1, fs))))"

definition FlushActive :: "'s Store \<Rightarrow> chunk_store \<Rightarrow> 's \<Rightarrow> (serror + unit) \<times> chunk_store \<times> 's" where
  "FlushActive S cs s =
     (if \<not> activeDirty cs then (Inr (), cs, s)
      else (case Put S (activeID cs) (activeBuf cs) s of
              (Inl e, s1) \<Rightarrow> (Inl e, cs, s1)
            | (Inr _, s1) \<Rightarrow> (Inr (), cs\<lparr>activeDirty := False\<rparr>, s1)))"

fun DeleteChunks :: "'s Store \<Rightarrow> string list \<Rightarrow> 's \<Rightarrow> (serror + unit) \<times> 's" where
  "DeleteChunks S [] s = (Inr (), s)"
| "DeleteChunks S (i # ids) s =
     (case Delete S i s of
        (Inl e, s1) \<Rightarrow> (Inl e, s1)
      | (Inr _, s1) \<Rightarrow> DeleteChunks S ids s1)"

definition PutSealed :: "'s Store \<Rightarrow> string \<Rightarrow> bytes \<Rightarrow> 's \<Rightarrow> (serror + unit) \<times> 's" where
  "PutSealed S i d s = Put S i d s"

definition SealedSize :: "'s Store \<Rightarrow> string \<Rightarrow> chunk_store \<Rightarrow> 's \<Rightarrow> (serror + int) \<times> 's" where
  "SealedSize S i cs s =
     (if i = activeID cs then (Inr (int (length (activeBuf cs))), s) else SizeOf S i s)"

definition ListSealed :: "'s Store \<Rightarrow> chunk_store \<Rightarrow> 's \<Rightarrow> (serror + string list) \<times> 's" where
  "ListSealed S cs s =
     (case ListIDs S s of
        (Inl e, s1) \<Rightarrow> (Inl e, s1)
      | (Inr ids, s1) \<Rightarrow> (Inr (filter (\<lambda>i. i \<noteq> activeID cs) ids), s1))"

section \<open>Identifiers\<close>

lemma chunkID_inj: "0 \<le> a \<Longrightarrow> 0 \<le> b \<Longrightarrow> chunkID a = chunkID b \<longleftrightarrow> a = b"
  using fmt_08d_inj by (auto simp: chunkID_def)

lemma fmt_08d_chars: "0 \<le> k \<Longrightarrow> c \<in> set (fmt_08d k) \<Longrightarrow> is_digit c"
  using fmt_08d_digits by blast

lemma object_chunkID [simp]: "0 \<le> k \<Longrightarrow> object_id (chunkID k)"
proof -
  assume k: "0 \<le> k"
  have d: "is_digit c \<Longrightarrow> c \<noteq> CHR ''/'' \<and> c \<noteq> CHR ''p''" for c by (auto simp: is_digit_def)
  then have "CHR ''/'' \<notin> set (fmt_08d k)" using fmt_08d_chars [OF k] by blast
  then have pl: "plain_name (chunkID k)" by (simp add: plain_name_def chunkID_def)
  have "last (chunkID k) \<noteq> CHR ''p''"
    using d fmt_08d_chars [OF k, of "last (fmt_08d k)"] by (simp add: chunkID_def)
  then have "\<not> suffix ''.tmp'' (chunkID k)" by (auto simp: suffix_def)
  moreover have "chunkID k \<noteq> ''index.cbor''" by (simp add: chunkID_def)
  moreover have "list_all safe_char (chunkID k)"
    using fmt_08d_chars [OF k] by (simp add: chunkID_def list_all_iff safe_char_def)
  ultimately show ?thesis using pl by (simp add: object_id_def)
qed

lemma scan_chunkID: "0 \<le> k \<Longrightarrow> k < 10 ^ 8 \<Longrightarrow> scan_chunk_seq (chunkID k) = Some k"
  using scan_fmt_08d [of k] by (simp add: scan_chunk_seq_def chunkID_def HasPrefix_def)

lemma max_seq_ge:
  assumes "i \<in> set ids" and "scan_chunk_seq i = Some k"
  shows "k \<le> max_seq ids"
proof -
  let ?f = "\<lambda>m i. case scan_chunk_seq i of None \<Rightarrow> m | Some k \<Rightarrow> if m < k then k else (m :: int)"
  have mono: "m \<le> foldl ?f m xs" for m xs
  proof (induction xs arbitrary: m)
    case (Cons a xs)
    have "m \<le> ?f m a" by (simp split: option.splits)
    also have "\<dots> \<le> foldl ?f (?f m a) xs" by (rule Cons.IH)
    finally show ?case by simp
  qed simp
  have "k \<le> foldl ?f m ids" for m using assms
  proof (induction ids arbitrary: m)
    case (Cons a ids)
    show ?case
    proof (cases "a = i")
      case True
      then have "k \<le> ?f m a" using Cons.prems by simp
      also have "\<dots> \<le> foldl ?f (?f m a) ids" by (rule mono)
      finally show ?thesis by simp
    next
      case False
      then show ?thesis using Cons by simp
    qed
  qed simp
  then show ?thesis by (simp add: max_seq_def)
qed

lemma max_seq_less: "max_seq ids < 10 ^ 8"
proof -
  have "foldl (\<lambda>m i. case scan_chunk_seq i of None \<Rightarrow> m | Some k \<Rightarrow> if m < k then k else m) m ids < 10 ^ 8"
    if "m < 10 ^ 8" for m :: int
    using that
  proof (induction ids arbitrary: m)
    case (Cons i ids)
    have "(case scan_chunk_seq i of None \<Rightarrow> m | Some k \<Rightarrow> if m < k then k else m) < 10 ^ 8"
      using Cons.prems scan_int_width_less [of 8 "drop 6 i"]
      by (auto simp: scan_chunk_seq_def split: option.splits)
    then show ?case using Cons.IH by simp
  qed simp
  then show ?thesis by (simp add: max_seq_def)
qed

lemma max_seq_ge_minus: "- 1 \<le> max_seq ids"
proof -
  have "m \<le> foldl (\<lambda>m i. case scan_chunk_seq i of None \<Rightarrow> m | Some k \<Rightarrow> if m < k then k else m) m ids" for m :: int
  proof (induction ids arbitrary: m)
    case (Cons i ids)
    let ?m = "case scan_chunk_seq i of None \<Rightarrow> m | Some k \<Rightarrow> if m < k then k else m"
    have "m \<le> ?m" by (simp split: option.splits)
    with Cons.IH [of ?m] show ?case by simp
  qed simp
  then show ?thesis by (simp add: max_seq_def)
qed

end
