(* ===== verification/Chunk_Store_Inv.thy ===== *)
theory Chunk_Store_Inv
  imports Chunk_Store
begin

text \<open>
  The invariant of the chunk store and what each operation does to the view of the
  chunks: written bytes stay readable at the place the extent names, whatever is
  appended, sealed, flushed or cached afterwards, and whatever the store fails to do.
\<close>

section \<open>The view and the invariant\<close>

definition chunk_view :: "objects \<Rightarrow> chunk_store \<Rightarrow> objects" where
  "chunk_view Os cs i = (if i = activeID cs then Some (activeBuf cs) else Os i)"

definition view_mono :: "objects \<Rightarrow> objects \<Rightarrow> bool" where
  "view_mono V V' \<longleftrightarrow> (\<forall>i c. V i = Some c \<longrightarrow> c \<noteq> [] \<longrightarrow> (\<exists>c'. V' i = Some c' \<and> prefix c c'))"

definition seq_inv :: "objects \<Rightarrow> chunk_store \<Rightarrow> bool" where
  "seq_inv Os cs \<longleftrightarrow> (\<exists>k. 0 \<le> k \<and> k < nextSeq cs \<and> activeID cs = chunkID k)
     \<and> (\<forall>k. nextSeq cs \<le> k \<longrightarrow> Os (chunkID k) = None)"

definition buf_inv :: "objects \<Rightarrow> chunk_store \<Rightarrow> bool" where
  "buf_inv Os cs \<longleftrightarrow> (\<forall>c. Os (activeID cs) = Some c \<longrightarrow> prefix c (activeBuf cs))
     \<and> (\<not> activeDirty cs \<longrightarrow> activeBuf cs = [] \<or> Os (activeID cs) = Some (activeBuf cs))
     \<and> 0 \<le> maxChunkSize cs \<and> maxChunkSize cs < 2 ^ 62 \<and> int (length (activeBuf cs)) \<le> maxChunkSize cs
     \<and> (\<forall>i c. Os i = Some c \<longrightarrow> int (length c) < 2 ^ 63)"

definition cache_inv :: "objects \<Rightarrow> chunk_store \<Rightarrow> osfs \<Rightarrow> bool" where
  "cache_inv Os cs fs \<longleftrightarrow> (\<forall>dir. cache cs = Some dir \<longrightarrow> cache_ok Os dir fs
     \<and> map_of (files fs) (dir @ [activeID cs]) = None
     \<and> (\<forall>k. nextSeq cs \<le> k \<longrightarrow> map_of (files fs) (dir @ [chunkID k]) = None))"

definition cs_inv :: "objects \<Rightarrow> chunk_store \<Rightarrow> osfs \<Rightarrow> bool" where
  "cs_inv Os cs fs \<longleftrightarrow> seq_inv Os cs \<and> buf_inv Os cs \<and> cache_inv Os cs fs"

lemmas cs_defs = cs_inv_def seq_inv_def buf_inv_def cache_inv_def

lemma view_mono_refl [simp]: "view_mono V V"
  by (auto simp: view_mono_def)

lemma view_mono_trans: "view_mono A B \<Longrightarrow> view_mono B C \<Longrightarrow> view_mono A C"
  unfolding view_mono_def by (metis prefix_order.order_trans prefix_Nil)

lemma inv_active_id: "cs_inv Os cs fs \<Longrightarrow> object_id (activeID cs)"
  by (auto simp: cs_inv_def seq_inv_def)

lemma inv_next_pos: "cs_inv Os cs fs \<Longrightarrow> 0 < nextSeq cs"
  by (auto simp: cs_inv_def seq_inv_def)

lemma inv_active_ne_next:
  assumes "cs_inv Os cs fs" and "nextSeq cs \<le> k"
  shows "chunkID k \<noteq> activeID cs"
proof -
  from assms obtain j where "0 \<le> j" "j < nextSeq cs" "activeID cs = chunkID j" by (auto simp: cs_inv_def seq_inv_def)
  with assms(2) chunkID_inj [of k j] show ?thesis by auto
qed

section \<open>Steps of the invariant\<close>

lemma put_active_inv:
  assumes "cs_inv Os cs fs"
  shows "cs_inv (Os(activeID cs \<mapsto> activeBuf cs)) cs fs"
proof -
  have "seq_inv (Os(activeID cs \<mapsto> activeBuf cs)) cs"
    using assms inv_active_ne_next [OF assms] by (auto simp: cs_inv_def seq_inv_def)
  moreover have "buf_inv (Os(activeID cs \<mapsto> activeBuf cs)) cs"
    using assms by (auto simp: cs_inv_def buf_inv_def)
  moreover have "cache_inv (Os(activeID cs \<mapsto> activeBuf cs)) cs fs"
    using assms by (auto simp: cs_inv_def cache_inv_def cache_ok_def)
  ultimately show ?thesis by (simp add: cs_inv_def)
qed

lemma put_active_view: "chunk_view (Os(activeID cs \<mapsto> d)) cs = chunk_view Os cs"
  by (simp add: chunk_view_def fun_eq_iff)

definition rotate :: "bool \<Rightarrow> chunk_store \<Rightarrow> chunk_store" where
  "rotate d cs = cs\<lparr>activeID := chunkID (nextSeq cs), nextSeq := i64 (nextSeq cs + 1), activeBuf := [], activeDirty := d\<rparr>"

lemma rotate_sel [simp]:
  "maxChunkSize (rotate d cs) = maxChunkSize cs" "activeBuf (rotate d cs) = []" "cache (rotate d cs) = cache cs"
  "nextSeq (rotate d cs) = i64 (nextSeq cs + 1)" "activeID (rotate d cs) = chunkID (nextSeq cs)"
  by (simp_all add: rotate_def)

lemma rotate_empty:
  "activeBuf cs = [] \<Longrightarrow>
   cs\<lparr>activeID := chunkID (nextSeq cs), nextSeq := i64 (nextSeq cs + 1)\<rparr> = rotate (activeDirty cs) cs"
  by (cases cs) (simp add: rotate_def)

lemma rotate_inv:
  assumes inv: "cs_inv Os cs fs" and n: "nextSeq cs < 2 ^ 63 - 1"
  shows "cs_inv Os (rotate d cs) fs"
proof -
  have n1: "i64 (nextSeq cs + 1) = nextSeq cs + 1" using n inv_next_pos [OF inv] by (simp add: i64_nonneg)
  have "0 \<le> nextSeq cs" using inv_next_pos [OF inv] by simp
  then have "seq_inv Os (rotate d cs)" using inv by (auto simp: cs_inv_def seq_inv_def rotate_def n1)
  moreover have "buf_inv Os (rotate d cs)" using inv by (auto simp: cs_inv_def buf_inv_def seq_inv_def rotate_def)
  moreover have "cache_inv Os (rotate d cs) fs" using inv by (auto simp: cs_inv_def cache_inv_def rotate_def n1)
  ultimately show ?thesis by (simp add: cs_inv_def)
qed

lemma rotate_view:
  assumes inv: "cs_inv Os cs fs" and b: "activeBuf cs = [] \<or> Os (activeID cs) = Some (activeBuf cs)"
  shows "view_mono (chunk_view Os cs) (chunk_view Os (rotate d cs))"
    and "chunk_view Os cs i = Some c \<Longrightarrow> c \<noteq> [] \<Longrightarrow> Os i = Some c"
  using b inv by (auto simp: view_mono_def chunk_view_def rotate_def cs_inv_def seq_inv_def split: if_splits)

lemma cache_put_inv:
  assumes inv: "cs_inv Os cs fs" and c: "cache cs = Some dir" and i: "object_id i" "i \<noteq> activeID cs"
    and fr: "\<And>k. nextSeq cs \<le> k \<Longrightarrow> chunkID k \<noteq> i" and o: "Os i = Some d"
    and w: "cache_put dir i d fs = (r, fs')"
  shows "cs_inv Os cs fs'"
proof -
  have w': "writeAtomic (dir @ [i]) d fs = (r, fs')" using w i by (simp add: cache_put_def)
  have "cache_ok Os dir fs'"
    using inv c o by (intro cache_ok_write [OF _ i(1) w']) (auto simp: cs_inv_def cache_inv_def)
  moreover have "map_of (files fs') (dir @ [j]) = map_of (files fs) (dir @ [j])" if "j \<noteq> i" "object_id j" for j
    using writeAtomic_files [OF w' tmp_ne [OF that(2)]] that(1) by auto
  ultimately have "cache_inv Os cs fs'"
    using inv c i(2) fr inv_active_id [OF inv] inv_next_pos [OF inv]
    by (auto simp: cs_inv_def cache_inv_def)
  with inv show ?thesis by (simp add: cs_inv_def)
qed

lemma append_active_inv:
  assumes inv: "cs_inv Os cs fs" and l: "int (length (activeBuf cs)) + int (length d) \<le> maxChunkSize cs"
    and a: "append_active d fo cs = (ext, cs')"
  shows "cs_inv Os cs' fs" and "view_mono (chunk_view Os cs) (chunk_view Os cs')"
    and "chunk_view Os cs' (ChunkID ext) = Some (activeBuf cs @ d)"
    and "ext = \<lparr>ChunkID = activeID cs, ChunkOffset = int (length (activeBuf cs)), Length = int (length d), FileOffset = fo\<rparr>"
proof -
  from a have cs': "cs' = cs\<lparr>activeBuf := activeBuf cs @ d, activeDirty := True\<rparr>"
    and ext: "ext = \<lparr>ChunkID = activeID cs, ChunkOffset = int (length (activeBuf cs)), Length = int (length d), FileOffset = fo\<rparr>"
    by (simp_all add: append_active_def)
  have "seq_inv Os cs'" "cache_inv Os cs' fs" using inv by (simp_all add: cs_defs cs')
  moreover have "buf_inv Os cs'" using inv l by (auto simp: cs_inv_def buf_inv_def cs' intro: prefix_order.order_trans)
  ultimately show "cs_inv Os cs' fs" by (simp add: cs_inv_def)
  show "view_mono (chunk_view Os cs) (chunk_view Os cs')" by (auto simp: view_mono_def chunk_view_def cs')
  show "chunk_view Os cs' (ChunkID ext) = Some (activeBuf cs @ d)" by (simp add: chunk_view_def cs' ext)
  show "ext = \<lparr>ChunkID = activeID cs, ChunkOffset = int (length (activeBuf cs)), Length = int (length d), FileOffset = fo\<rparr>"
    by (rule ext)
qed

section \<open>Operations over a store that keeps its contract\<close>

context store_contract
begin

lemma sealLocked_safe:
  assumes w: "swf s" and inv: "cs_inv (objs s) cs fs" and n: "nextSeq cs < 2 ^ 63 - 1"
    and e: "sealLocked S cs s fs = (r, cs', s', fs')"
  shows "swf s'" and "cs_inv (objs s') cs' fs'" and "view_mono (chunk_view (objs s) cs) (chunk_view (objs s') cs')"
    and "maxChunkSize cs' = maxChunkSize cs"
    and "r = Inr () \<Longrightarrow> activeBuf cs' = []"
    and "r = Inr () \<Longrightarrow> chunk_view (objs s) cs i = Some c \<Longrightarrow> c \<noteq> [] \<Longrightarrow> objs s' i = Some c"
proof -
  have "swf s' \<and> cs_inv (objs s') cs' fs' \<and> view_mono (chunk_view (objs s) cs) (chunk_view (objs s') cs')
    \<and> maxChunkSize cs' = maxChunkSize cs \<and> (r = Inr () \<longrightarrow> activeBuf cs' = [])
    \<and> (r = Inr () \<longrightarrow> chunk_view (objs s) cs i = Some c \<longrightarrow> c \<noteq> [] \<longrightarrow> objs s' i = Some c)"
  proof (cases "activeBuf cs = []")
    case True
    then have E: "r = Inr ()" "cs' = rotate (activeDirty cs) cs" "s' = s" "fs' = fs"
      using e by (simp_all add: sealLocked_def rotate_empty)
    show ?thesis
      using w rotate_inv [OF inv n] rotate_view(1) [OF inv, of "activeDirty cs"] rotate_view(2) [OF inv, of i c] True unfolding E by simp
  next
    case False
    obtain r1 s1 where p: "Put S (activeID cs) (activeBuf cs) s = (r1, s1)" by force
    have id: "object_id (activeID cs)" by (rule inv_active_id [OF inv])
    have w1: "swf s1" by (rule put_wf [OF w id p])
    from w id p show ?thesis
    proof (cases rule: put_cases)
      case ok
      let ?Os = "(objs s)(activeID cs \<mapsto> activeBuf cs)"
      have i1: "cs_inv ?Os cs fs" by (rule put_active_inv [OF inv])
      have i2: "cs_inv ?Os (rotate False cs) fs" by (rule rotate_inv [OF i1 n])
      note v = rotate_view(1) [OF i1, of False, unfolded put_active_view]
        rotate_view(2) [OF i1, of i c, unfolded put_active_view]
      have E: "r = Inr ()" "cs' = rotate False cs" "s' = s1"
        "fs' = (case cache cs of None \<Rightarrow> fs | Some dir \<Rightarrow> snd (cache_put dir (activeID cs) (activeBuf cs) fs))"
        using e False p ok by (simp_all add: sealLocked_def rotate_def Let_def)
      have "cs_inv ?Os (rotate False cs) fs'"
      proof (cases "cache cs")
        case None
        then show ?thesis using i2 E by simp
      next
        case (Some dir)
        obtain r2 fs2 where cp: "cache_put dir (activeID cs) (activeBuf cs) fs = (r2, fs2)" by force
        have "cs_inv ?Os (rotate False cs) fs2"
        proof (rule cache_put_inv [OF i2 _ id _ _ _ cp])
          show "activeID cs \<noteq> activeID (rotate False cs)"
            using inv_active_ne_next [OF inv, of "nextSeq cs"] by (simp add: rotate_def)
          have n1: "i64 (nextSeq cs + 1) = nextSeq cs + 1" using n inv_next_pos [OF inv] by (simp add: i64_nonneg)
          show "chunkID k \<noteq> activeID cs" if "nextSeq (rotate False cs) \<le> k" for k
            using inv_active_ne_next [OF inv, of k] that by (simp add: rotate_def n1)
        qed (use Some in \<open>simp_all add: rotate_def\<close>)
        then show ?thesis using E Some cp by simp
      qed
      with w1 ok v show ?thesis unfolding E by simp
    next
      case (lost e)
      then show ?thesis using assms(4) False p w1 inv by (auto simp: sealLocked_def)
    next
      case (late e)
      then show ?thesis
        using assms(4) False p w1 put_active_inv [OF inv] put_active_view [of "objs s" cs]
        by (auto simp: sealLocked_def)
    qed
  qed
  then show "swf s'" and "cs_inv (objs s') cs' fs'" and "view_mono (chunk_view (objs s) cs) (chunk_view (objs s') cs')"
    and "maxChunkSize cs' = maxChunkSize cs" and "r = Inr () \<Longrightarrow> activeBuf cs' = []"
    and "r = Inr () \<Longrightarrow> chunk_view (objs s) cs i = Some c \<Longrightarrow> c \<noteq> [] \<Longrightarrow> objs s' i = Some c" by blast+
qed

lemma FlushActive_safe:
  assumes w: "swf s" and inv: "cs_inv (objs s) cs fs" and e: "FlushActive S cs s = (r, cs', s')"
  shows "swf s'" and "cs_inv (objs s') cs' fs" and "chunk_view (objs s') cs' = chunk_view (objs s) cs"
    and "r = Inr () \<Longrightarrow> chunk_view (objs s) cs i = Some c \<Longrightarrow> c \<noteq> [] \<Longrightarrow> objs s' i = Some c"
proof -
  have "swf s' \<and> cs_inv (objs s') cs' fs \<and> chunk_view (objs s') cs' = chunk_view (objs s) cs
    \<and> (r = Inr () \<longrightarrow> chunk_view (objs s) cs i = Some c \<longrightarrow> c \<noteq> [] \<longrightarrow> objs s' i = Some c)"
  proof (cases "activeDirty cs")
    case False
    then have E: "r = Inr ()" "cs' = cs" "s' = s" using e by (simp_all add: FlushActive_def)
    have "chunk_view (objs s) cs i = Some c \<Longrightarrow> c \<noteq> [] \<Longrightarrow> objs s i = Some c"
      using inv False by (auto simp: cs_inv_def buf_inv_def chunk_view_def split: if_splits)
    then show ?thesis using w inv E by simp
  next
    case True
    obtain r1 s1 where p: "Put S (activeID cs) (activeBuf cs) s = (r1, s1)" by force
    have id: "object_id (activeID cs)" by (rule inv_active_id [OF inv])
    have w1: "swf s1" by (rule put_wf [OF w id p])
    note i1 = put_active_inv [OF inv]
    have i2: "cs_inv ((objs s)(activeID cs \<mapsto> activeBuf cs)) (cs\<lparr>activeDirty := False\<rparr>) fs"
      using i1 by (simp add: cs_defs)
    have v: "chunk_view Os (cs\<lparr>activeDirty := b\<rparr>) = chunk_view Os cs" for Os b
      by (simp add: chunk_view_def fun_eq_iff)
    have d: "chunk_view (objs s) cs i = Some c \<Longrightarrow> ((objs s)(activeID cs \<mapsto> activeBuf cs)) i = Some c"
      by (simp add: chunk_view_def split: if_splits)
    from w id p show ?thesis
    proof (cases rule: put_cases)
      case ok
      then show ?thesis using e True p w1 i2 d by (auto simp: FlushActive_def v put_active_view)
    next
      case (lost e)
      then show ?thesis using assms(3) True p w1 inv by (auto simp: FlushActive_def)
    next
      case (late e)
      then show ?thesis using assms(3) True p w1 i1 by (auto simp: FlushActive_def put_active_view)
    qed
  qed
  then show "swf s'" and "cs_inv (objs s') cs' fs" and "chunk_view (objs s') cs' = chunk_view (objs s) cs"
    and "r = Inr () \<Longrightarrow> chunk_view (objs s) cs i = Some c \<Longrightarrow> c \<noteq> [] \<Longrightarrow> objs s' i = Some c" by blast+
qed

end

end
