(* ===== verification/Chunk_Store_Spec.thy ===== *)
theory Chunk_Store_Spec
  imports Chunk_Store_Inv
begin

text \<open>
  Appending, reading, recovering and deleting through the chunk store, over any store
  that keeps its contract.
\<close>

definition ext_in :: "Extent \<Rightarrow> bytes \<Rightarrow> bool" where
  "ext_in e c \<longleftrightarrow> 0 \<le> ChunkOffset e \<and> 0 \<le> Length e \<and> ChunkOffset e + Length e \<le> int (length c)"

definition ext_data :: "Extent \<Rightarrow> bytes \<Rightarrow> bytes" where
  "ext_data e c = byte_slice (ChunkOffset e) (Length e) c"

lemma ext_mono: "ext_in e c \<Longrightarrow> prefix c c' \<Longrightarrow> ext_in e c' \<and> ext_data e c' = ext_data e c"
  by (auto simp: ext_in_def ext_data_def slice_prefix dest: prefix_length_le)

lemma cs_inv_len:
  assumes "cs_inv Os cs fs" and "chunk_view Os cs i = Some c"
  shows "int (length c) < 2 ^ 63"
proof (cases "i = activeID cs")
  case True
  then have "c = activeBuf cs" using assms(2) by (simp add: chunk_view_def)
  then have "int (length c) < 2 ^ 62" using assms(1) by (auto simp: cs_inv_def buf_inv_def)
  then show ?thesis by simp
next
  case False
  then show ?thesis using assms by (auto simp: cs_inv_def buf_inv_def chunk_view_def)
qed

context store_contract
begin

lemma Append_safe:
  assumes w: "swf s" and inv: "cs_inv (objs s) cs fs" and n: "nextSeq cs < 2 ^ 63 - 1"
    and e: "Append S d fo cs s fs = (r, cs', s', fs')"
  shows "swf s'" and "cs_inv (objs s') cs' fs'" and "view_mono (chunk_view (objs s) cs) (chunk_view (objs s') cs')"
    and "r = Inr ext \<Longrightarrow> ChunkID ext = activeID cs' \<and> Length ext = int (length d) \<and> FileOffset ext = fo \<and>
      (\<exists>c. chunk_view (objs s') cs' (ChunkID ext) = Some c \<and> ext_in ext c \<and> ext_data ext c = d)"
proof -
  have "swf s' \<and> cs_inv (objs s') cs' fs' \<and> view_mono (chunk_view (objs s) cs) (chunk_view (objs s') cs') \<and>
    (r = Inr ext \<longrightarrow> ChunkID ext = activeID cs' \<and> Length ext = int (length d) \<and> FileOffset ext = fo \<and>
      (\<exists>c. chunk_view (objs s') cs' (ChunkID ext) = Some c \<and> ext_in ext c \<and> ext_data ext c = d))"
  proof (cases "maxChunkSize cs < int (length d)")
    case True
    then show ?thesis using e w inv by (auto simp: Append_def)
  next
    case False
    have B: "int (length (activeBuf cs)) \<le> maxChunkSize cs" "maxChunkSize cs < 2 ^ 62"
      using inv by (simp_all add: cs_inv_def buf_inv_def)
    have sum: "i64 (int (length (activeBuf cs)) + int (length d)) = int (length (activeBuf cs)) + int (length d)"
      using B False by (simp add: i64_nonneg)
    have fin: "swf s1 \<and> cs_inv (objs s1) cs2 fs1 \<and> view_mono (chunk_view (objs s1) cs1) (chunk_view (objs s1) cs2) \<and>
        ChunkID x = activeID cs2 \<and> Length x = int (length d) \<and> FileOffset x = fo \<and>
        (\<exists>c. chunk_view (objs s1) cs2 (ChunkID x) = Some c \<and> ext_in x c \<and> ext_data x c = d)"
      if "swf s1" "cs_inv (objs s1) cs1 fs1" "append_active d fo cs1 = (x, cs2)"
        "int (length (activeBuf cs1)) + int (length d) \<le> maxChunkSize cs1" for cs1 s1 fs1 x cs2
      using append_active_inv [OF that(2,4,3)] that(1,3)
      by (auto simp: ext_in_def ext_data_def slice_append_right append_active_def)
    show ?thesis
    proof (cases "maxChunkSize cs < int (length (activeBuf cs)) + int (length d)")
      case rot: True
      obtain r1 cs1 s1 fs1 where q: "sealLocked S cs s fs = (r1, cs1, s1, fs1)"
        by (cases "sealLocked S cs s fs")
      note Q = sealLocked_safe [OF w inv n q]
      obtain x cs2 where a: "append_active d fo cs1 = (x, cs2)" by force
      from e False rot sum q a have R: "(r, cs', s', fs') =
          (case r1 of Inl er \<Rightarrow> (Inl er, cs1, s1, fs1) | Inr _ \<Rightarrow> (Inr x, cs2, s1, fs1))"
        by (auto simp: Append_def split: sum.splits)
      show ?thesis
      proof (cases r1)
        case (Inl er)
        with R Q show ?thesis by simp
      next
        case (Inr u)
        then have "int (length (activeBuf cs1)) + int (length d) \<le> maxChunkSize cs1" using Q False by simp
        from fin [OF Q(1,2) a this] Inr R view_mono_trans [OF Q(3)] show ?thesis by auto
      qed
    next
      case norot: False
      obtain x cs2 where a: "append_active d fo cs = (x, cs2)" by force
      from e False norot sum a have "r = Inr x" "cs' = cs2" "s' = s" "fs' = fs" by (simp_all add: Append_def)
      with fin [OF w inv a] norot show ?thesis by auto
    qed
  qed
  then show "swf s'" and "cs_inv (objs s') cs' fs'" and "view_mono (chunk_view (objs s) cs) (chunk_view (objs s') cs')"
    and "r = Inr ext \<Longrightarrow> ChunkID ext = activeID cs' \<and> Length ext = int (length d) \<and> FileOffset ext = fo \<and>
      (\<exists>c. chunk_view (objs s') cs' (ChunkID ext) = Some c \<and> ext_in ext c \<and> ext_data ext c = d)" by blast+
qed

lemma Read_safe:
  assumes w: "swf s" and inv: "cs_inv (objs s) cs fs" and i: "object_id i"
    and e: "Read S i off n cs s fs = (r, s', fs')"
  shows "swf s' \<and> objs s' = objs s \<and> cs_inv (objs s) cs fs'"
    and "r = Inr b \<Longrightarrow> chunk_view (objs s) cs i = Some c \<Longrightarrow> 0 \<le> off \<Longrightarrow> 0 < n \<Longrightarrow> off + n \<le> int (length c) \<Longrightarrow>
      b = byte_slice off n c"
proof -
  have act: "i = activeID cs \<Longrightarrow> s' = s \<and> fs' = fs \<and>
      r = (if int (length (activeBuf cs)) < i64 (off + n) then Inl SRange else slice_expr off n (activeBuf cs))"
    using e by (auto simp: Read_def split: if_splits)
  show "swf s' \<and> objs s' = objs s \<and> cs_inv (objs s) cs fs'"
  proof (cases "i = activeID cs")
    case True
    with act w inv show ?thesis by simp
  next
    case na: False
    show ?thesis
    proof (cases "cache cs")
      case None
      then show ?thesis using e na w inv get_keeps [OF w]
        by (auto simp: Read_def cs_inv_def cache_inv_def split: prod.splits)
    next
      case (Some dir)
      then have rr: "readRange S dir i off n s fs = (r, s', fs')" using e na by (simp add: Read_def)
      have "cache_ok (objs s) dir fs" using inv Some by (simp add: cs_inv_def cache_inv_def)
      note k = readRange_safe(1) [OF w i this rr]
      have f: "map_of (files fs') (dir @ [j]) = map_of (files fs) (dir @ [j])"
        if "object_id j" "j \<noteq> i \<or> objs s i = None" for j
        by (rule readRange_files [OF w i rr that])
      have fa: "map_of (files fs') (dir @ [activeID cs]) = None"
        using f [of "activeID cs"] na inv_active_id [OF inv] inv Some by (auto simp: cs_inv_def cache_inv_def)
      have fn: "map_of (files fs') (dir @ [chunkID m]) = None" if m: "nextSeq cs \<le> m" for m
      proof -
        have "object_id (chunkID m)" using inv_next_pos [OF inv] m by simp
        moreover have "chunkID m \<noteq> i \<or> objs s i = None" using inv m by (auto simp: cs_inv_def seq_inv_def)
        ultimately show ?thesis using f [of "chunkID m"] inv Some m by (auto simp: cs_inv_def cache_inv_def)
      qed
      have "cache_inv (objs s) cs fs'" using k fa fn Some by (simp add: cache_inv_def)
      with k inv show ?thesis by (simp add: cs_inv_def)
    qed
  qed
  show "b = byte_slice off n c" if b: "r = Inr b" and c: "chunk_view (objs s) cs i = Some c"
    and o: "0 \<le> off" "0 < n" "off + n \<le> int (length c)"
  proof (cases "i = activeID cs")
    case True
    then have "c = activeBuf cs" using c by (simp add: chunk_view_def)
    then have "slice_expr off n c = Inr b" using act True b by (auto split: if_splits)
    with slice_expr_in [of off n c] o cs_inv_len [OF inv c] show ?thesis by simp
  next
    case na: False
    then have oc: "objs s i = Some c" using c by (simp add: chunk_view_def)
    show ?thesis
    proof (cases "cache cs")
      case None
      then have "GetRange S i off n s = (Inr b, s')" using e na b by (auto simp: Read_def split: prod.splits)
      with get_ok [OF w i o(1,2)] oc o(3) show ?thesis by fastforce
    next
      case (Some dir)
      then have rr: "readRange S dir i off n s fs = (r, s', fs')" using e na by (simp add: Read_def)
      have "cache_ok (objs s) dir fs" using inv Some by (simp add: cs_inv_def cache_inv_def)
      from readRange_safe(2) [OF w i this rr b o(2) oc o(3) cs_inv_len [OF inv c]] show ?thesis .
    qed
  qed
qed

lemma RecoverNextSeq_inv:
  assumes w: "swf s" and e: "RecoverNextSeq S (NewChunkStore m) s = (Inr (), cs, s')"
    and m: "0 \<le> m" "m < 2 ^ 62"
    and low: "\<And>k. 0 \<le> k \<Longrightarrow> objs s (chunkID k) \<noteq> None \<Longrightarrow> k < 10 ^ 8"
    and len: "\<And>i c. objs s i = Some c \<Longrightarrow> int (length c) < 2 ^ 63"
  shows "swf s' \<and> objs s' = objs s \<and> cs_inv (objs s) cs fs \<and> objs s (activeID cs) = None"
proof -
  obtain ids where l: "ListIDs S s = (Inr ids, s')"
    using e by (auto simp: RecoverNextSeq_def Let_def split: prod.splits sum.splits if_splits)
  note k = list_keeps [OF w l]
  define q where "q = max_seq ids"
  have le: "j \<le> q" if j: "0 \<le> j" "objs s (chunkID j) \<noteq> None" for j
  proof -
    have "chunkID j \<in> set ids" using list_ok [OF w l] j by simp
    from max_seq_ge [OF this scan_chunkID] j low [OF j] show ?thesis by (simp add: q_def)
  qed
  have q8: "q < 10 ^ 8" unfolding q_def by (rule max_seq_less)
  have E: "cs = (if q < 0 then NewChunkStore m
      else (NewChunkStore m)\<lparr>activeID := chunkID (i64 (q + 1)), nextSeq := i64 (i64 (q + 1) + 1)\<rparr>)"
    using e l by (auto simp: RecoverNextSeq_def q_def Let_def split: if_splits)
  define a where "a = (if q < 0 then 0 else q + 1)"
  have "i64 (q + 1) = q + 1" "i64 (q + 1 + 1) = q + 1 + 1" if "0 \<le> q"
    using that q8 by (simp_all add: i64_nonneg)
  then have cs: "activeID cs = chunkID a" "nextSeq cs = a + 1" "activeBuf cs = []" "\<not> activeDirty cs" "cache cs = None"
    "maxChunkSize cs = m"
    by (simp_all add: E a_def NewChunkStore_def)
  have none: "objs s (chunkID j) = None" if "a \<le> j" for j
  proof (rule ccontr)
    assume "objs s (chunkID j) \<noteq> None"
    moreover have "0 \<le> j" using that by (simp add: a_def split: if_splits)
    ultimately have "j \<le> q" by (intro le)
    with that \<open>0 \<le> j\<close> show False by (simp add: a_def split: if_splits)
  qed
  have "0 \<le> a" by (simp add: a_def)
  then have "cs_inv (objs s) cs fs"
    using none m len by (auto simp: cs_inv_def seq_inv_def buf_inv_def cache_inv_def cs)
  with k none cs(1) show ?thesis by simp
qed

lemma DeleteChunks_all:
  "swf s \<Longrightarrow> \<forall>i \<in> set ids. object_id i \<Longrightarrow> DeleteChunks S ids s = (r, s') \<Longrightarrow>
   swf s' \<and> (\<forall>i. i \<notin> set ids \<longrightarrow> objs s' i = objs s i) \<and> (\<forall>i. objs s' i = objs s i \<or> objs s' i = None)
   \<and> (r = Inr () \<longrightarrow> (\<forall>i \<in> set ids. objs s' i = None))"
proof (induction ids arbitrary: s)
  case Nil
  then show ?case by simp
next
  case (Cons j ids)
  obtain r1 s1 where d: "Delete S j s = (r1, s1)" by force
  have j: "object_id j" and ids: "\<forall>i \<in> set ids. object_id i" using Cons.prems(2) by simp_all
  have w1: "swf s1" by (rule delete_wf [OF Cons.prems(1) j d])
  have ob: "objs s1 = objs s \<or> objs s1 = (objs s)(j := None)" by (rule delete_cases [OF Cons.prems(1) j d])
  show ?case
  proof (cases r1)
    case (Inl e)
    then have "r = Inl e" "s' = s1" using Cons.prems(3) d by simp_all
    with w1 ob show ?thesis by (auto split: if_splits)
  next
    case (Inr u)
    then have "DeleteChunks S ids s1 = (r, s')" using Cons.prems(3) d by simp
    note I = Cons.IH [OF w1 ids this]
    have o1: "objs s1 i = (if i = j then None else objs s i)" for i
      using delete_ok [OF Cons.prems(1) j] d Inr by simp
    have "objs s' i = objs s i \<or> objs s' i = None" for i
    proof -
      have "objs s' i = objs s1 i \<or> objs s' i = None" using I by metis
      then show ?thesis using o1 [of i] by (auto split: if_splits)
    qed
    moreover have "objs s' j = None"
    proof -
      have "objs s' j = objs s1 j \<or> objs s' j = None" using I by metis
      then show ?thesis using o1 [of j] by simp
    qed
    ultimately show ?thesis using I o1 by simp
  qed
qed

lemma DeleteChunks_safe:
  assumes "swf s" and "\<forall>i \<in> set ids. object_id i" and "DeleteChunks S ids s = (r, s')"
  shows "swf s'" and "i \<notin> set ids \<Longrightarrow> objs s' i = objs s i" and "objs s' i = objs s i \<or> objs s' i = None"
    and "r = Inr () \<Longrightarrow> i \<in> set ids \<Longrightarrow> objs s' i = None"
proof -
  note D = DeleteChunks_all [OF assms]
  show "swf s'" using D by blast
  show "i \<notin> set ids \<Longrightarrow> objs s' i = objs s i" using D by blast
  show "objs s' i = objs s i \<or> objs s' i = None" using D by metis
  show "r = Inr () \<Longrightarrow> i \<in> set ids \<Longrightarrow> objs s' i = None" using D by metis
qed

lemma DeleteChunks_inv:
  assumes w: "swf s" and inv: "cs_inv (objs s) cs fs" and ids: "\<forall>i \<in> set ids. object_id i" "activeID cs \<notin> set ids"
    and d: "DeleteChunks S ids s = (r, s')"
  shows "cs_inv (objs s') cs fs" and "i \<notin> set ids \<Longrightarrow> chunk_view (objs s') cs i = chunk_view (objs s) cs i"
proof -
  note D = DeleteChunks_safe [OF w ids(1) d]
  have a: "objs s' (activeID cs) = objs s (activeID cs)" by (rule D(2) [OF ids(2)])
  have none: "objs s' j = None" if "objs s j = None" for j using D(3) [of j] that by simp
  have sub: "objs s j = Some c" if "objs s' j = Some c" for j c using D(3) [of j] that by simp
  have "seq_inv (objs s') cs" using inv none unfolding cs_inv_def seq_inv_def by blast
  moreover have "buf_inv (objs s') cs" using inv sub unfolding cs_inv_def buf_inv_def a by blast
  moreover have "cache_ok (objs s') dir fs" if c: "cache_ok (objs s) dir fs" for dir
    unfolding cache_ok_def
  proof (intro allI impI)
    fix j c assume "object_id j" "map_of (files fs) (dir @ [j]) = Some c"
    then have "objs s j = None \<or> objs s j = Some c" using c unfolding cache_ok_def by blast
    with D(3) [of j] show "objs s' j = None \<or> objs s' j = Some c" by auto
  qed
  then have "cache_inv (objs s') cs fs" using inv unfolding cs_inv_def cache_inv_def by blast
  ultimately show "cs_inv (objs s') cs fs" by (simp add: cs_inv_def)
  show "i \<notin> set ids \<Longrightarrow> chunk_view (objs s') cs i = chunk_view (objs s) cs i"
    using D(2) by (simp add: chunk_view_def)
qed

end

section \<open>Success\<close>

definition disk_good :: "chunk_store \<Rightarrow> osfs \<Rightarrow> bool" where
  "disk_good cs fs \<longleftrightarrow> (\<forall>dir. cache cs = Some dir \<longrightarrow> local_good dir fs)"

context store_live
begin

lemma Append_live:
  assumes g: "good s" and inv: "cs_inv (objs s) cs fs" and dg: "disk_good cs fs"
    and l: "int (length d) \<le> maxChunkSize cs"
  shows "\<exists>ext cs' s' fs'. Append S d fo cs s fs = (Inr ext, cs', s', fs') \<and> good s' \<and> disk_good cs' fs'
    \<and> cache cs' = cache cs \<and> maxChunkSize cs' = maxChunkSize cs"
proof -
  have q: "\<exists>cs' s' fs'. sealLocked S cs s fs = (Inr (), cs', s', fs') \<and> good s' \<and> disk_good cs' fs'
      \<and> cache cs' = cache cs \<and> maxChunkSize cs' = maxChunkSize cs"
  proof (cases "activeBuf cs = []")
    case True
    then show ?thesis using g dg by (simp add: sealLocked_def disk_good_def)
  next
    case False
    have id: "object_id (activeID cs)" by (rule inv_active_id [OF inv])
    from put_live [OF g id, of "activeBuf cs"] obtain s1 where
      p: "Put S (activeID cs) (activeBuf cs) s = (Inr (), s1)" "good s1" by blast
    show ?thesis
    proof (cases "cache cs")
      case None
      then show ?thesis using False p by (simp add: sealLocked_def disk_good_def)
    next
      case (Some dir)
      with dg have "local_good dir fs" by (simp add: disk_good_def)
      from writeAtomic_live [OF this id, of "activeBuf cs"] obtain fs1 where
        "writeAtomic (dir @ [activeID cs]) (activeBuf cs) fs = (Inr (), fs1)" "local_good dir fs1" by blast
      then show ?thesis using False p Some id by (simp add: sealLocked_def disk_good_def cache_put_def)
    qed
  qed
  obtain r1 cs1 s1 fs1 where q1: "(if maxChunkSize cs < i64 (int (length (activeBuf cs)) + int (length d))
      then sealLocked S cs s fs else (Inr (), cs, s, fs)) = (r1, cs1, s1, fs1)"
    by (metis prod_cases4)
  have "r1 = Inr ()" "good s1" "disk_good cs1 fs1" "cache cs1 = cache cs" "maxChunkSize cs1 = maxChunkSize cs"
    using q q1 g dg by (auto split: if_splits)
  then show ?thesis using l q1 by (simp add: Append_def append_active_def disk_good_def)
qed

lemma Read_live:
  assumes g: "good s" and inv: "cs_inv (objs s) cs fs" and dg: "disk_good cs fs" and i: "object_id i"
    and c: "chunk_view (objs s) cs i = Some c" and o: "0 \<le> off" "0 < n" "off + n \<le> int (length c)"
  shows "\<exists>s' fs'. Read S i off n cs s fs = (Inr (byte_slice off n c), s', fs') \<and> good s' \<and> disk_good cs fs'"
proof (cases "i = activeID cs")
  case True
  then have "c = activeBuf cs" using c by (simp add: chunk_view_def)
  then show ?thesis
    using True o cs_inv_len [OF inv c] slice_expr_in [of off n c] g dg by (simp add: Read_def i64_nonneg)
next
  case False
  then have oc: "objs s i = Some c" using c by (simp add: chunk_view_def)
  show ?thesis
  proof (cases "cache cs")
    case None
    obtain s' where "GetRange S i off n s = (Inr (byte_slice off n c), s')" "good s'"
      using get_exact [OF g i oc o] by blast
    then show ?thesis using None False dg by (simp add: Read_def)
  next
    case (Some dir)
    have "cache_ok (objs s) dir fs" "local_good dir fs"
      using inv dg Some by (simp_all add: cs_inv_def cache_inv_def disk_good_def)
    from readRange_live [OF g i this(1) oc o cs_inv_len [OF inv c] this(2)] show ?thesis
      using False Some by (auto simp: Read_def disk_good_def)
  qed
qed

end

end
