(* ===== verification/Go_Float.thy ===== *)
theory Go_Float
  imports Complex_Main "HOL-Library.Log_Nat"
begin

text \<open>
  Go's \<^verbatim>\<open>float64\<close> as far as the program uses it: the conversion of an integer, a
  quotient and a comparison. A finite value is a rational number; \<open>round64\<close> rounds to
  the nearest value with a 53-bit significand, ties to even. The quotients the program
  forms are of magnitude between $2^{-63}$ and $2^{64}$, where every such value is a normal
  \<^verbatim>\<open>float64\<close>, so neither subnormal numbers nor overflow are modelled.
\<close>

datatype f64 = NaN | PosInf | NegInf | Fin rat

text \<open>The exponent \<open>e\<close> with \<open>2 ^ e \<le> x < 2 ^ (e + 1)\<close>, for a positive \<open>x\<close>.\<close>

definition exponent2 :: "rat \<Rightarrow> int" where
  "exponent2 x = (if 1 \<le> x then bitlen \<lfloor>x\<rfloor> - 1 else - bitlen (\<lceil>1 / x\<rceil> - 1))"

definition pow2 :: "int \<Rightarrow> rat" where
  "pow2 e = (if 0 \<le> e then 2 ^ nat e else 1 / 2 ^ nat (- e))"

definition round_half_even :: "rat \<Rightarrow> int" where
  "round_half_even x =
     (let n = \<lfloor>x\<rfloor>; d = x - of_int n
      in if d < 1 / 2 then n else if 1 / 2 < d then n + 1 else if even n then n else n + 1)"

definition round64 :: "rat \<Rightarrow> rat" where
  "round64 x =
     (if x = 0 then 0
      else let u = pow2 (exponent2 \<bar>x\<bar> - 52) in of_int (round_half_even (x / u)) * u)"

definition f64_of_int :: "int \<Rightarrow> rat" where
  "f64_of_int n = round64 (of_int n)"

definition f64_div :: "rat \<Rightarrow> rat \<Rightarrow> rat" where
  "f64_div a b = round64 (a / b)"

text \<open>\<^verbatim>\<open>x >= t\<close> for a finite \<open>x\<close>; every comparison with a NaN is false.\<close>

definition f64_ge :: "rat \<Rightarrow> f64 \<Rightarrow> bool" where
  "f64_ge x t = (case t of NaN \<Rightarrow> False | PosInf \<Rightarrow> False | NegInf \<Rightarrow> True | Fin r \<Rightarrow> r \<le> x)"

section \<open>Facts\<close>

lemma round64_0 [simp]: "round64 0 = 0"
  by (simp add: round64_def)

lemma round_half_even_int [simp]: "round_half_even (of_int n) = n"
  by (simp add: round_half_even_def Let_def)

lemma round64_1 [simp]: "round64 1 = 1"
proof -
  have b: "bitlen 1 = 1" by (simp add: bitlen_def floorlog_def)
  have u: "pow2 (exponent2 1 - 52) = 1 / 2 ^ 52" by (simp add: pow2_def exponent2_def b)
  have "(1 :: rat) / (1 / 2 ^ 52) = of_int (2 ^ 52)" by simp
  then show ?thesis unfolding round64_def Let_def abs_one u by (simp only: round_half_even_int) simp
qed

lemma round_half_even_pos: "1 \<le> x \<Longrightarrow> 1 \<le> round_half_even x"
proof -
  assume "1 \<le> x"
  then have "1 \<le> \<lfloor>x\<rfloor>" by simp
  then show ?thesis by (simp add: round_half_even_def Let_def)
qed

lemma pow2_pos: "0 < pow2 e"
  by (simp add: pow2_def)

lemma f64_of_int_nonzero:
  assumes "0 < n"
  shows "f64_of_int n \<noteq> 0"
proof -
  let ?x = "of_int n :: rat" let ?u = "pow2 (exponent2 ?x - 52)"
  have x: "1 \<le> ?x" using assms by simp
  have e: "exponent2 ?x = bitlen n - 1" using x by (simp add: exponent2_def)
  have "?u \<le> ?x"
  proof -
    have "2 ^ nat (bitlen n - 1) \<le> n" using bitlen_bounds [OF assms] by simp
    then have a: "(2 ^ nat (bitlen n - 1) :: rat) \<le> ?x" by (metis of_int_le_iff of_int_numeral of_int_power)
    have b: "?u \<le> 2 ^ nat (bitlen n - 1)"
    proof (cases "0 \<le> bitlen n - 1 - 52")
      case True
      then show ?thesis by (simp add: pow2_def e power_increasing)
    next
      case False
      then have "?u \<le> 1" by (simp add: pow2_def e)
      also have "(1 :: rat) \<le> 2 ^ nat (bitlen n - 1)" by simp
      finally show ?thesis .
    qed
    show ?thesis by (rule order_trans [OF b a])
  qed
  then have "1 \<le> ?x / ?u" using pow2_pos [of "exponent2 ?x - 52"] by (simp add: le_divide_eq)
  then have "1 \<le> round_half_even (?x / ?u)" by (rule round_half_even_pos)
  then have "round_half_even (?x / ?u) \<noteq> 0" by simp
  moreover have "?u \<noteq> 0" using pow2_pos [of "exponent2 ?x - 52"] by simp
  moreover have "\<bar>?x\<bar> = ?x" "?x \<noteq> 0" using assms by simp_all
  ultimately show ?thesis unfolding f64_of_int_def round64_def Let_def by simp
qed

lemma f64_div_self: "0 < n \<Longrightarrow> f64_div (f64_of_int n) (f64_of_int n) = 1"
  using f64_of_int_nonzero [of n] by (simp add: f64_div_def)

lemma f64_div_0 [simp]: "f64_div (f64_of_int 0) x = 0"
  by (simp add: f64_div_def f64_of_int_def)

end
