(* ===== verification/Compactor.thy ===== *)
theory Compactor
  imports Index_Spec Chunk_Store_Spec Go_Float
begin

text \<open>
  \<^verbatim>\<open>internal/compaction/compactor.go\<close>: one compaction cycle. The clock is a parameter that
  gives the reading of each \<^verbatim>\<open>time.Now().UnixNano()\<close> call, and the persist function is a
  parameter, as in the source. \<open>Compact\<close> is the whole of \<^verbatim>\<open>Compactor.Compact\<close>; its steps
  are the definitions before it, in the order of the code.
\<close>

section \<open>Operations\<close>

datatype cerror = ListFailed serror | ReadFailed serror | WriteFailed serror | PersistFailed serror | DeleteFailed serror

type_synonym 's persist = "index \<Rightarrow> chunk_store \<Rightarrow> 's \<Rightarrow> osfs \<Rightarrow> (serror + unit) \<times> index \<times> chunk_store \<times> 's \<times> osfs"

definition live_in :: "Extent list \<Rightarrow> string \<Rightarrow> Extent list" where
  "live_in live i = filter (\<lambda>e. ChunkID e = i) live"

definition orphan_frac :: "int \<Rightarrow> Extent list \<Rightarrow> rat" where
  "orphan_frac tot es =
     (let live = foldl (\<lambda>a e. i64 (a + Length e)) 0 es
      in f64_div (f64_of_int (i64 (tot - live))) (f64_of_int tot))"

fun select_targets ::
  "'s Store \<Rightarrow> f64 \<Rightarrow> chunk_store \<Rightarrow> Extent list \<Rightarrow> string list \<Rightarrow> 's \<Rightarrow> string list \<times> 's" where
  "select_targets S threshold cs live [] s = ([], s)"
| "select_targets S threshold cs live (i # ids) s =
     (case SealedSize S i cs s of
        (Inl e, s1) \<Rightarrow> select_targets S threshold cs live ids s1
      | (Inr tot, s1) \<Rightarrow>
          (case select_targets S threshold cs live ids s1 of
             (ts, s2) \<Rightarrow>
               (if tot = 0 \<or> f64_ge (orphan_frac tot (live_in live i)) threshold then i # ts else ts, s2)))"

definition compacted_id :: "int \<Rightarrow> nat \<Rightarrow> string" where
  "compacted_id t k = ''compacted-'' @ fmt_d t @ ''-'' @ fmt_d (int k)"

record pack =
  outputs :: "(string \<times> bytes) list"
  outSeq :: nat
  remap :: "(string \<times> int, Extent) gomap"

definition newOutput :: "(nat \<Rightarrow> int) \<Rightarrow> pack \<Rightarrow> pack" where
  "newOutput clock p =
     p\<lparr>outputs := outputs p @ [(compacted_id (clock (outSeq p)) (outSeq p), [])], outSeq := outSeq p + 1\<rparr>"

definition pack_start :: "(nat \<Rightarrow> int) \<Rightarrow> pack" where
  "pack_start clock = newOutput clock \<lparr>outputs = [], outSeq = 0, remap = []\<rparr>"

definition place :: "(nat \<Rightarrow> int) \<Rightarrow> int \<Rightarrow> Extent \<Rightarrow> bytes \<Rightarrow> pack \<Rightarrow> pack" where
  "place clock chunkSize e data p =
     (let cur = last (outputs p);
          p1 = (if snd cur \<noteq> [] \<and> chunkSize < i64 (int (length (snd cur)) + Length e)
                then newOutput clock p else p);
          cur1 = last (outputs p1)
      in p1\<lparr>outputs := butlast (outputs p1) @ [(fst cur1, snd cur1 @ data)],
            remap := AList.update (ChunkID e, ChunkOffset e)
              \<lparr>ChunkID = fst cur1, ChunkOffset = int (length (snd cur1)), Length = Length e,
               FileOffset = FileOffset e\<rparr> (remap p1)\<rparr>)"

fun pack_extents ::
  "'s Store \<Rightarrow> (nat \<Rightarrow> int) \<Rightarrow> int \<Rightarrow> chunk_store \<Rightarrow> Extent list \<Rightarrow> pack \<Rightarrow> 's \<Rightarrow> osfs
     \<Rightarrow> (serror + pack) \<times> 's \<times> osfs" where
  "pack_extents S clock chunkSize cs [] p s fs = (Inr p, s, fs)"
| "pack_extents S clock chunkSize cs (e # es) p s fs =
     (case Read S (ChunkID e) (ChunkOffset e) (Length e) cs s fs of
        (Inl err, s1, fs1) \<Rightarrow> (Inl err, s1, fs1)
      | (Inr data, s1, fs1) \<Rightarrow>
          pack_extents S clock chunkSize cs es (place clock chunkSize e data p) s1 fs1)"

fun write_outputs :: "'s Store \<Rightarrow> (string \<times> bytes) list \<Rightarrow> 's \<Rightarrow> (serror + unit) \<times> 's" where
  "write_outputs S [] s = (Inr (), s)"
| "write_outputs S ((i, buf) # outs) s =
     (if buf = [] then write_outputs S outs s
      else (case PutSealed S i buf s of
              (Inl err, s1) \<Rightarrow> (Inl err, s1)
            | (Inr _, s1) \<Rightarrow> write_outputs S outs s1))"

definition Compact ::
  "'s Store \<Rightarrow> 's persist \<Rightarrow> (nat \<Rightarrow> int) \<Rightarrow> f64 \<Rightarrow> int \<Rightarrow> index \<Rightarrow> chunk_store \<Rightarrow> 's \<Rightarrow> osfs
     \<Rightarrow> (cerror + unit) \<times> index \<times> chunk_store \<times> 's \<times> osfs" where
  "Compact S persist clock threshold chunkSize idx cs s fs =
     (let live = LiveExtents idx
      in case ListSealed S cs s of
           (Inl err, s1) \<Rightarrow> (Inl (ListFailed err), idx, cs, s1, fs)
         | (Inr ids, s1) \<Rightarrow>
             (case select_targets S threshold cs live ids s1 of
                (targets, s2) \<Rightarrow>
                  if targets = [] then (Inr (), idx, cs, s2, fs)
                  else
                    (case pack_extents S clock chunkSize cs (concat (map (live_in live) targets))
                            (pack_start clock) s2 fs of
                       (Inl err, s3, fs3) \<Rightarrow> (Inl (ReadFailed err), idx, cs, s3, fs3)
                     | (Inr p, s3, fs3) \<Rightarrow>
                         (case write_outputs S (outputs p) s3 of
                            (Inl err, s4) \<Rightarrow> (Inl (WriteFailed err), idx, cs, s4, fs3)
                          | (Inr _, s4) \<Rightarrow>
                              (case persist (RemapExtents (remap p) idx) cs s4 fs3 of
                                 (Inl err, idx5, cs5, s5, fs5) \<Rightarrow> (Inl (PersistFailed err), idx5, cs5, s5, fs5)
                               | (Inr _, idx5, cs5, s5, fs5) \<Rightarrow>
                                   (case DeleteChunks S targets s5 of
                                      (Inl err, s6) \<Rightarrow> (Inl (DeleteFailed err), idx5, cs5, s6, fs5)
                                    | (Inr _, s6) \<Rightarrow> (Inr (), idx5, cs5, s6, fs5)))))))"

section \<open>Identifiers of the output chunks\<close>

lemma dec_no_dash: "CHR ''-'' \<notin> set (dec n)"
  using dec_digits [of n] by (auto simp: is_digit_def)

lemma dec_inj: "dec a = dec b \<Longrightarrow> a = b"
  using undec_dec by metis

lemma split_last_dash:
  assumes "a @ ''-'' @ x = b @ ''-'' @ y" and "CHR ''-'' \<notin> set x" and "CHR ''-'' \<notin> set y"
  shows "x = y"
proof -
  have t: "takeWhile (\<lambda>c. c \<noteq> CHR ''-'') (rev (a @ ''-'' @ x)) = rev x" if "CHR ''-'' \<notin> set x" for a x
    using that by (auto simp: takeWhile_tail takeWhile_eq_all_conv)
  have "rev x = rev y" using t [OF assms(2), of a] t [OF assms(3), of b] unfolding assms(1) by (rule trans [OF sym])
  then show ?thesis by simp
qed

lemma compacted_id_seq: "compacted_id t k = compacted_id u j \<Longrightarrow> k = j"
proof -
  assume "compacted_id t k = compacted_id u j"
  then have "(''compacted-'' @ fmt_d t) @ ''-'' @ dec k = (''compacted-'' @ fmt_d u) @ ''-'' @ dec j"
    by (simp add: compacted_id_def fmt_d_def)
  then have "dec k = dec j" by (rule split_last_dash) (rule dec_no_dash)+
  then show ?thesis by (rule dec_inj)
qed

lemma object_compacted_id: "object_id (compacted_id t k)"
proof -
  have d: "c \<noteq> CHR ''/'' \<and> c \<noteq> CHR ''p''" if "c \<in> set (dec n)" for c n
    using dec_digits [of n] that by (auto simp: is_digit_def)
  have "CHR ''/'' \<notin> set (fmt_d t)" using d by (auto simp: fmt_d_def)
  moreover have "CHR ''/'' \<notin> set (fmt_d (int k))" using d by (auto simp: fmt_d_def)
  ultimately have pl: "plain_name (compacted_id t k)" by (simp add: plain_name_def compacted_id_def)
  have "last (compacted_id t k) = last (dec k)" by (simp add: compacted_id_def fmt_d_def)
  then have "last (compacted_id t k) \<noteq> CHR ''p''" using d [of "last (dec k)" k] by simp
  then have "\<not> suffix ''.tmp'' (compacted_id t k)" by (auto simp: suffix_def)
  moreover have "compacted_id t k \<noteq> ''index.cbor''" by (simp add: compacted_id_def)
  moreover have "list_all safe_char (dec n)" for n
    using dec_digits [of n] by (auto simp: list_all_iff safe_char_def)
  then have "list_all safe_char (compacted_id t k)"
    by (auto simp: compacted_id_def fmt_d_def safe_char_def [of "CHR ''-''"]) (simp_all add: safe_char_def)
  ultimately show ?thesis using pl by (simp add: object_id_def)
qed

lemma compacted_not_chunk: "compacted_id t k \<noteq> chunkID j"
  by (simp add: compacted_id_def chunkID_def)

end
