(* ===== verification/Compactor_Spec.thy ===== *)
theory Compactor_Spec
  imports Compactor
begin

text \<open>
  Compaction does not change the content of any file, whether it succeeds or fails at
  any of its steps. The proof follows the steps of \<^verbatim>\<open>Compact\<close>: packing builds a remap whose
  entries hold the same bytes, writing the outputs touches only fresh identifiers,
  remapping replaces extents by extents with the same bytes, and the deleted chunks are
  no longer referenced.
\<close>

section \<open>File content through the index and the chunks\<close>

definition chunk_byte :: "objects \<Rightarrow> string \<times> int \<Rightarrow> byte option" where
  "chunk_byte V l =
     (case V (fst l) of
        None \<Rightarrow> None
      | Some c \<Rightarrow> if 0 \<le> snd l \<and> snd l < int (length c) then Some (c ! nat (snd l)) else None)"

definition exts_byte :: "objects \<Rightarrow> Extent list \<Rightarrow> int \<Rightarrow> byte option" where
  "exts_byte V es b = (case loc es b of None \<Rightarrow> Some zero_byte | Some l \<Rightarrow> chunk_byte V l)"

definition file_byte :: "objects \<Rightarrow> index \<Rightarrow> ino \<Rightarrow> int \<Rightarrow> byte option" where
  "file_byte V idx i b = exts_byte V (file_extents idx i) b"

lemma exts_byte_cong:
  assumes "\<And>e. e \<in> set es \<Longrightarrow> 0 < Length e \<Longrightarrow> V' (ChunkID e) = V (ChunkID e)"
  shows "exts_byte V' es b = exts_byte V es b"
proof (cases "loc es b")
  case None
  then show ?thesis by (simp add: exts_byte_def)
next
  case (Some l)
  then obtain e where "e \<in> set es" "covers e b" "l = ext_loc e b" by (rule loc_SomeE)
  with assms [of e] Some show ?thesis
    by (simp add: exts_byte_def chunk_byte_def ext_loc_def covers_def)
qed

text \<open>\<open>e'\<close> can stand for \<open>e\<close>: it describes the same range of the file and the same bytes.\<close>

definition stands_for :: "objects \<Rightarrow> objects \<Rightarrow> Extent \<Rightarrow> Extent \<Rightarrow> bool" where
  "stands_for V V' e e' \<longleftrightarrow> FileOffset e' = FileOffset e \<and> Length e' = Length e
     \<and> (\<forall>b. covers e b \<longrightarrow> chunk_byte V' (ext_loc e' b) = chunk_byte V (ext_loc e b))"

lemma exts_byte_map:
  assumes "\<And>e. e \<in> set es \<Longrightarrow> stands_for V V' e (f e)"
  shows "exts_byte V' (map f es) b = exts_byte V es b"
  using assms
proof (induction es)
  case Nil
  then show ?case by (simp add: exts_byte_def)
next
  case (Cons e es)
  have n: "loc (map f es) b = None \<longleftrightarrow> loc es b = None"
    using Cons.prems by (auto simp: loc_None_iff stands_for_def covers_def)
  from Cons.prems [of e] have s: "covers (f e) b \<longleftrightarrow> covers e b"
    "covers e b \<Longrightarrow> chunk_byte V' (ext_loc (f e) b) = chunk_byte V (ext_loc e b)"
    by (simp_all add: stands_for_def covers_def)
  have IH: "exts_byte V' (map f es) b = exts_byte V es b" using Cons by simp
  show ?case
  proof (cases "loc es b")
    case None
    with n s show ?thesis by (simp add: exts_byte_def)
  next
    case (Some l)
    with n obtain l' where "loc (map f es) b = Some l'" by auto
    with Some IH show ?thesis by (simp add: exts_byte_def)
  qed
qed

lemma chunk_byte_data:
  assumes "V (ChunkID e) = Some c" and "ext_in e c" and "covers e b"
  shows "chunk_byte V (ext_loc e b) = Some (ext_data e c ! nat (b - FileOffset e))"
proof -
  let ?k = "nat (b - FileOffset e)"
  have k: "int ?k < Length e" "0 \<le> b - FileOffset e" using assms(3) by (simp_all add: covers_def)
  have "ext_data e c ! ?k = c ! nat (ChunkOffset e + int ?k)"
    using assms(2) k unfolding ext_data_def ext_in_def by (intro nth_byte_slice) simp_all
  then show ?thesis
    using assms k by (simp add: chunk_byte_def ext_loc_def ext_in_def)
qed

lemma stands_forI:
  assumes "FileOffset e' = FileOffset e" and "Length e' = Length e"
    and "0 < Length e \<Longrightarrow> V (ChunkID e) = Some c \<and> ext_in e c"
    and "0 < Length e \<Longrightarrow> V' (ChunkID e') = Some c' \<and> ext_in e' c' \<and> ext_data e' c' = ext_data e c"
  shows "stands_for V V' e e'"
  unfolding stands_for_def
proof (intro conjI allI impI)
  fix b assume b: "covers e b"
  then have l: "0 < Length e" and b': "covers e' b" using assms(1,2) by (auto simp: covers_def)
  show "chunk_byte V' (ext_loc e' b) = chunk_byte V (ext_loc e b)"
    using chunk_byte_data [of V e c b] chunk_byte_data [of V' e' c' b] b b' assms(1,3,4) l by simp
qed (use assms in simp_all)

section \<open>Packing\<close>

definition ext_key :: "Extent \<Rightarrow> string \<times> int" where
  "ext_key e = (ChunkID e, ChunkOffset e)"

definition outs_ok :: "(nat \<Rightarrow> int) \<Rightarrow> pack \<Rightarrow> bool" where
  "outs_ok clock p \<longleftrightarrow> outputs p \<noteq> [] \<and> outSeq p = length (outputs p)
     \<and> (\<forall>k < length (outputs p). fst (outputs p ! k) = compacted_id (clock k) k)"

text \<open>The extent \<open>e'\<close> lies in an output and holds the bytes of \<open>e\<close>.\<close>

definition packed_as :: "objects \<Rightarrow> (string \<times> bytes) list \<Rightarrow> Extent \<Rightarrow> Extent \<Rightarrow> bool" where
  "packed_as V outs e e' \<longleftrightarrow> FileOffset e' = FileOffset e \<and> Length e' = Length e
     \<and> (\<exists>k < length outs. ChunkID e' = fst (outs ! k)
          \<and> (0 < Length e \<longrightarrow> (\<exists>c. V (ChunkID e) = Some c \<and> ext_in e c \<and> ext_in e' (snd (outs ! k))
                 \<and> ext_data e' (snd (outs ! k)) = ext_data e c)))"

definition packed :: "objects \<Rightarrow> Extent set \<Rightarrow> pack \<Rightarrow> bool" where
  "packed V seen p \<longleftrightarrow> dom (map_of (remap p)) = ext_key ` seen
     \<and> (\<forall>e \<in> seen. \<exists>e'. map_of (remap p) (ext_key e) = Some e' \<and> packed_as V (outputs p) e e')"

definition outs_grow :: "(string \<times> bytes) list \<Rightarrow> (string \<times> bytes) list \<Rightarrow> bool" where
  "outs_grow a b \<longleftrightarrow> length a \<le> length b
     \<and> (\<forall>k < length a. fst (b ! k) = fst (a ! k) \<and> prefix (snd (a ! k)) (snd (b ! k)))"

lemma packed_as_grow:
  assumes "packed_as V a e e'" and "outs_grow a b"
  shows "packed_as V b e e'"
proof -
  from assms(1) obtain k where k: "k < length a" "ChunkID e' = fst (a ! k)"
    and l: "0 < Length e \<longrightarrow> (\<exists>c. V (ChunkID e) = Some c \<and> ext_in e c \<and> ext_in e' (snd (a ! k))
                 \<and> ext_data e' (snd (a ! k)) = ext_data e c)"
    and r: "FileOffset e' = FileOffset e" "Length e' = Length e"
    unfolding packed_as_def by blast
  from assms(2) k have g: "k < length b" "fst (b ! k) = fst (a ! k)" "prefix (snd (a ! k)) (snd (b ! k))"
    by (auto simp: outs_grow_def)
  have "ext_in e' (snd (a ! k)) \<Longrightarrow> ext_in e' (snd (b ! k)) \<and> ext_data e' (snd (b ! k)) = ext_data e' (snd (a ! k))"
    by (rule ext_mono [OF _ g(3)])
  with k l r g(1,2) show ?thesis unfolding packed_as_def by auto
qed

lemma newOutput_ok:
  assumes "outSeq p = length (outputs p)"
    and "\<forall>k < length (outputs p). fst (outputs p ! k) = compacted_id (clock k) k"
  shows "outs_ok clock (newOutput clock p)" and "outs_grow (outputs p) (outputs (newOutput clock p))"
    and "remap (newOutput clock p) = remap p"
  using assms by (auto simp: outs_ok_def outs_grow_def newOutput_def nth_append less_Suc_eq)

lemma pack_start_ok: "outs_ok clock (pack_start clock)" "remap (pack_start clock) = []"
  unfolding pack_start_def by (rule newOutput_ok, simp_all) (simp add: newOutput_def)

lemma place_ok:
  assumes ok: "outs_ok clock p" and p': "p' = place clock chunkSize e data p"
    and d: "0 < Length e \<Longrightarrow> \<exists>c. V (ChunkID e) = Some c \<and> ext_in e c \<and> data = ext_data e c"
  shows "outs_ok clock p'" and "outs_grow (outputs p) (outputs p')"
    and "\<exists>e'. remap p' = AList.update (ext_key e) e' (remap p) \<and> packed_as V (outputs p') e e'"
proof -
  define p1 where "p1 = (if snd (last (outputs p)) \<noteq> [] \<and> chunkSize < i64 (int (length (snd (last (outputs p)))) + Length e)
      then newOutput clock p else p)"
  have ok1: "outs_ok clock p1" and g1: "outs_grow (outputs p) (outputs p1)" and r1: "remap p1 = remap p"
    using ok newOutput_ok [of p clock] by (auto simp: p1_def outs_ok_def outs_grow_def)
  define n where "n = length (outputs p1) - 1"
  have n: "n < length (outputs p1)" "last (outputs p1) = outputs p1 ! n"
    using ok1 by (simp_all add: n_def outs_ok_def last_conv_nth)
  define c1 where "c1 = outputs p1 ! n"
  have upd: "butlast (outputs p1) @ [x] = (outputs p1)[n := x]" for x
    using ok1 by (simp add: n_def outs_ok_def list_update_append butlast_conv_take take_Suc_conv_app_nth
        upd_conv_take_nth_drop)
  define e' where "e' = \<lparr>ChunkID = fst c1, ChunkOffset = int (length (snd c1)), Length = Length e, FileOffset = FileOffset e\<rparr>"
  have P: "p' = p1\<lparr>outputs := (outputs p1)[n := (fst c1, snd c1 @ data)], remap := AList.update (ext_key e) e' (remap p1)\<rparr>"
    unfolding p' place_def Let_def p1_def [symmetric] upd
    by (simp add: n(2) c1_def e'_def ext_key_def)
  show "outs_ok clock p'" using ok1 n by (auto simp: P outs_ok_def nth_list_update c1_def)
  have "outs_grow (outputs p1) (outputs p')" using n(1) by (auto simp: P outs_grow_def nth_list_update c1_def)
  with g1 show "outs_grow (outputs p) (outputs p')"
    by (auto simp: outs_grow_def intro: prefix_order.order_trans)
  have "packed_as V (outputs p') e e'"
    unfolding packed_as_def
  proof (intro conjI exI [of _ n] impI)
    assume l: "0 < Length e"
    with d obtain c where c: "V (ChunkID e) = Some c" "ext_in e c" "data = ext_data e c" by blast
    then have len: "int (length data) = Length e"
      by (simp add: ext_data_def ext_in_def length_byte_slice)
    have "ext_data e' (snd c1 @ data) = data"
      unfolding ext_data_def e'_def using len slice_append_right [of "snd c1" data] by simp
    with c len show "\<exists>c. V (ChunkID e) = Some c \<and> ext_in e c \<and> ext_in e' (snd (outputs p' ! n))
        \<and> ext_data e' (snd (outputs p' ! n)) = ext_data e c"
      using n(1) l by (auto simp: P ext_in_def e'_def)
  qed (use n(1) in \<open>simp_all add: P e'_def\<close>)
  then show "\<exists>e'. remap p' = AList.update (ext_key e) e' (remap p) \<and> packed_as V (outputs p') e e'"
    using r1 by (auto simp: P)
qed

lemma place_packed:
  assumes ok: "outs_ok clock p" and pk: "packed V seen p" and p': "p' = place clock chunkSize e data p"
    and d: "0 < Length e \<Longrightarrow> \<exists>c. V (ChunkID e) = Some c \<and> ext_in e c \<and> data = ext_data e c"
    and u: "\<And>x. x \<in> seen \<Longrightarrow> ext_key x = ext_key e \<Longrightarrow> x = e"
  shows "packed V (insert e seen) p'"
proof -
  note P = place_ok [where V = V, OF ok p' d]
  from P(3) obtain e' where e': "remap p' = AList.update (ext_key e) e' (remap p)" "packed_as V (outputs p') e e'" by blast
  have "\<exists>y. map_of (remap p') (ext_key x) = Some y \<and> packed_as V (outputs p') x y" if "x \<in> insert e seen" for x
  proof (cases "ext_key x = ext_key e")
    case True
    then have "x = e" using that u by blast
    then show ?thesis using e' by simp
  next
    case False
    then have "x \<in> seen" using that by auto
    with pk obtain y where "map_of (remap p) (ext_key x) = Some y" "packed_as V (outputs p) x y"
      unfolding packed_def by blast
    with False e'(1) packed_as_grow [OF _ P(2)] show ?thesis by auto
  qed
  moreover have "dom (map_of (remap p')) = ext_key ` insert e seen"
    using pk e'(1) by (auto simp: packed_def dom_def)
  ultimately show ?thesis unfolding packed_def by blast
qed

section \<open>The steps over a store\<close>

definition readable :: "objects \<Rightarrow> Extent list \<Rightarrow> bool" where
  "readable V es \<longleftrightarrow> (\<forall>e \<in> set es. object_id (ChunkID e)
     \<and> (0 < Length e \<longrightarrow> (\<exists>c. V (ChunkID e) = Some c \<and> ext_in e c)))"

definition unique_keys :: "Extent list \<Rightarrow> bool" where
  "unique_keys es \<longleftrightarrow> (\<forall>a \<in> set es. \<forall>b \<in> set es. ext_key a = ext_key b \<longrightarrow> a = b)"

context store_contract
begin

lemma SealedSize_keeps: "swf s \<Longrightarrow> SealedSize S i cs s = (r, s') \<Longrightarrow> swf s' \<and> objs s' = objs s"
  using size_keeps by (auto simp: SealedSize_def split: if_splits)

lemma select_targets_keeps:
  "swf s \<Longrightarrow> select_targets S t cs live ids s = (ts, s') \<Longrightarrow> swf s' \<and> objs s' = objs s \<and> set ts \<subseteq> set ids"
proof (induction ids arbitrary: s ts s')
  case Nil
  then show ?case by simp
next
  case (Cons i ids)
  obtain r s1 where z: "SealedSize S i cs s = (r, s1)" by force
  obtain ts1 s2 where q: "select_targets S t cs live ids s1 = (ts1, s2)" by force
  note k = SealedSize_keeps [OF Cons.prems(1) z]
  have "swf s2 \<and> objs s2 = objs s1 \<and> set ts1 \<subseteq> set ids" using k q by (intro Cons.IH) simp_all
  moreover have "s' = s2" "set ts \<subseteq> insert i (set ts1)"
    using Cons.prems(2) z q by (cases r; auto split: if_splits)+
  ultimately show ?case using k by auto
qed

lemma pack_extents_ok:
  "swf s \<Longrightarrow> cs_inv (objs s) cs fs \<Longrightarrow> outs_ok clock p \<Longrightarrow> packed (chunk_view (objs s) cs) seen p \<Longrightarrow>
   readable (chunk_view (objs s) cs) es \<Longrightarrow>
   (\<And>a b. a \<in> seen \<union> set es \<Longrightarrow> b \<in> seen \<union> set es \<Longrightarrow> ext_key a = ext_key b \<Longrightarrow> a = b) \<Longrightarrow>
   pack_extents S clock chunkSize cs es p s fs = (r, s', fs') \<Longrightarrow>
   swf s' \<and> objs s' = objs s \<and> cs_inv (objs s) cs fs'
   \<and> (\<forall>p'. r = Inr p' \<longrightarrow> outs_ok clock p' \<and> packed (chunk_view (objs s) cs) (seen \<union> set es) p')"
proof (induction es arbitrary: p seen s fs)
  case Nil
  then show ?case by auto
next
  case (Cons e es)
  let ?V = "chunk_view (objs s) cs"
  obtain r1 s1 fs1 where rd: "Read S (ChunkID e) (ChunkOffset e) (Length e) cs s fs = (r1, s1, fs1)"
    by (cases "Read S (ChunkID e) (ChunkOffset e) (Length e) cs s fs")
  have id: "object_id (ChunkID e)" using Cons.prems(5) by (simp add: readable_def)
  note k = Read_safe(1) [OF Cons.prems(1,2) id rd]
  show ?case
  proof (cases r1)
    case (Inl err)
    with rd Cons.prems(7) k show ?thesis by auto
  next
    case (Inr data)
    let ?p = "place clock chunkSize e data p"
    have d: "\<exists>c. ?V (ChunkID e) = Some c \<and> ext_in e c \<and> data = ext_data e c" if l: "0 < Length e"
    proof -
      obtain c where c: "?V (ChunkID e) = Some c" "ext_in e c" using Cons.prems(5) l by (auto simp: readable_def)
      then have "data = byte_slice (ChunkOffset e) (Length e) c"
        using l by (intro Read_safe(2) [OF Cons.prems(1,2) id rd Inr]) (simp_all add: ext_in_def)
      with c show ?thesis by (simp add: ext_data_def)
    qed
    have ok1: "outs_ok clock ?p" by (rule place_ok(1) [where V = ?V, OF Cons.prems(3) refl d])
    have pk1: "packed ?V (insert e seen) ?p"
      using Cons.prems(6) by (intro place_packed [OF Cons.prems(3,4) refl d]) auto
    have rest: "pack_extents S clock chunkSize cs es ?p s1 fs1 = (r, s', fs')"
      using Cons.prems(7) rd Inr by simp
    have o: "objs s1 = objs s" and s1: "swf s1" "cs_inv (objs s1) cs fs1" using k by simp_all
    have "swf s' \<and> objs s' = objs s1 \<and> cs_inv (objs s1) cs fs'
       \<and> (\<forall>p'. r = Inr p' \<longrightarrow> outs_ok clock p' \<and> packed (chunk_view (objs s1) cs) (insert e seen \<union> set es) p')"
      by (rule Cons.IH [OF s1 ok1 _ _ _ rest]) (use pk1 Cons.prems(5,6) in \<open>auto simp: o readable_def\<close>)
    then show ?thesis by (simp add: o)
  qed
qed

lemma write_outputs_ok:
  "swf s \<Longrightarrow> \<forall>x \<in> set outs. object_id (fst x) \<Longrightarrow> write_outputs S outs s = (r, s') \<Longrightarrow>
   swf s' \<and> (\<forall>i. i \<notin> fst ` set outs \<longrightarrow> objs s' i = objs s i)
   \<and> (r = Inr () \<longrightarrow> distinct (map fst outs) \<longrightarrow> (\<forall>x \<in> set outs. snd x \<noteq> [] \<longrightarrow> objs s' (fst x) = Some (snd x)))"
proof (induction outs arbitrary: s)
  case Nil
  then show ?case by simp
next
  case (Cons x outs)
  obtain i b where x: "x = (i, b)" by force
  show ?case
  proof (cases "b = []")
    case True
    then have w: "write_outputs S outs s = (r, s')" using Cons.prems(3) x by simp
    from Cons.IH [OF Cons.prems(1) _ w] Cons.prems(2) True x show ?thesis by auto
  next
    case False
    obtain r1 s1 where p: "Put S i b s = (r1, s1)" by force
    have id: "object_id i" using Cons.prems(2) x by simp
    have w1: "swf s1" by (rule put_wf [OF Cons.prems(1) id p])
    have o1: "objs s1 j = objs s j" if "j \<noteq> i" for j
      using Cons.prems(1) id p that by (cases rule: put_cases) simp_all
    show ?thesis
    proof (cases r1)
      case (Inl e)
      then have "r = Inl e" "s' = s1" using Cons.prems(3) x False p by (simp_all add: PutSealed_def)
      then show ?thesis using w1 o1 x by auto
    next
      case (Inr u)
      then have w: "write_outputs S outs s1 = (r, s')" using Cons.prems(3) x False p by (simp add: PutSealed_def)
      note I = Cons.IH [OF w1 _ w]
      have oi: "objs s1 i = Some b" using put_ok [OF Cons.prems(1) id] p Inr by simp
      from I Cons.prems(2) have "swf s'" and other: "\<And>j. j \<notin> fst ` set outs \<Longrightarrow> objs s' j = objs s1 j"
        and put: "r = Inr () \<Longrightarrow> distinct (map fst outs) \<Longrightarrow> y \<in> set outs \<Longrightarrow> snd y \<noteq> [] \<Longrightarrow> objs s' (fst y) = Some (snd y)" for y
        by auto
      then show ?thesis using o1 oi x by (auto simp: image_iff)
    qed
  qed
qed

lemma outs_ids:
  assumes "outs_ok clock p"
  shows "distinct (map fst (outputs p))" and "x \<in> set (outputs p) \<Longrightarrow> \<exists>k. fst x = compacted_id (clock k) k"
proof -
  show "distinct (map fst (outputs p))"
    using assms compacted_id_seq by (auto simp: outs_ok_def distinct_conv_nth)
  show "x \<in> set (outputs p) \<Longrightarrow> \<exists>k. fst x = compacted_id (clock k) k"
    using assms by (auto simp: outs_ok_def in_set_conv_nth)
qed

end

end
