(* ===== verification/Compactor_Thm.thy ===== *)
theory Compactor_Thm
  imports Compactor_Spec
begin

text \<open>The whole cycle: every outcome of \<^verbatim>\<open>Compact\<close> leaves the content of all files as it was.\<close>

text \<open>What the cycle relies on from the persist function: it changes neither the extents
  nor the chunks.\<close>

definition persist_keeps :: "('s \<Rightarrow> objects) \<Rightarrow> ('s \<Rightarrow> bool) \<Rightarrow> 's persist \<Rightarrow> bool" where
  "persist_keeps objs swf P \<longleftrightarrow> (\<forall>idx cs s fs r idx' cs' s' fs'.
     P idx cs s fs = (r, idx', cs', s', fs') \<longrightarrow> swf s \<longrightarrow> object_id (activeID cs) \<longrightarrow>
     swf s' \<and> extents idx' = extents idx \<and> activeID cs' = activeID cs
       \<and> chunk_view (objs s') cs' = chunk_view (objs s) cs)"

definition fresh_outputs :: "objects \<Rightarrow> (nat \<Rightarrow> int) \<Rightarrow> bool" where
  "fresh_outputs Os clock \<longleftrightarrow> (\<forall>k. Os (compacted_id (clock k) k) = None)"

lemma target_exts: "set (concat (map (live_in live) targets)) = {e \<in> set live. ChunkID e \<in> set targets}"
  by (auto simp: live_in_def)

lemma file_byte_extents: "extents a = extents b \<Longrightarrow> file_byte V a = file_byte V b"
  by (simp add: file_byte_def file_extents_def fun_eq_iff)

lemma file_byte_cong:
  assumes "\<And>e. e \<in> set (LiveExtents idx) \<Longrightarrow> 0 < Length e \<Longrightarrow> V' (ChunkID e) = V (ChunkID e)"
  shows "file_byte V' idx i b = file_byte V idx i b"
  unfolding file_byte_def by (rule exts_byte_cong) (use assms file_extents_live in blast)

definition remapped :: "(string \<times> int, Extent) gomap \<Rightarrow> Extent \<Rightarrow> Extent" where
  "remapped rm e = (case map_of rm (ext_key e) of Some e' \<Rightarrow> e' | None \<Rightarrow> e)"

lemma remap_list_map: "remap_list rm es = map (remapped rm) es"
  by (simp add: remap_list_def remapped_def ext_key_def)

text \<open>After packing and writing, every live extent is represented by its remapped extent.\<close>

lemma remapped_stands:
  assumes pk: "packed V seen p" and u: "unique_keys live" and sub: "seen \<subseteq> set live" and e: "e \<in> set live"
    and rd: "readable V live"
    and new: "\<And>x. x \<in> set (outputs p) \<Longrightarrow> snd x \<noteq> [] \<Longrightarrow> V' (fst x) = Some (snd x)"
    and old: "0 < Length e \<Longrightarrow> V' (ChunkID e) = V (ChunkID e)"
  shows "stands_for V V' e (remapped (remap p) e)"
    and "e \<in> seen \<Longrightarrow> ChunkID (remapped (remap p) e) \<in> fst ` set (outputs p)"
    and "e \<notin> seen \<Longrightarrow> remapped (remap p) e = e"
proof -
  have in_seen: "e \<in> seen" if "map_of (remap p) (ext_key e) \<noteq> None"
  proof -
    from that pk obtain x where "x \<in> seen" "ext_key x = ext_key e" unfolding packed_def by (metis domIff imageE)
    with u sub e show ?thesis unfolding unique_keys_def by blast
  qed
  then show same: "e \<notin> seen \<Longrightarrow> remapped (remap p) e = e"
    by (auto simp: remapped_def split: option.splits)
  show "e \<in> seen \<Longrightarrow> ChunkID (remapped (remap p) e) \<in> fst ` set (outputs p)"
    using pk by (force simp: packed_def packed_as_def remapped_def)
  show "stands_for V V' e (remapped (remap p) e)"
  proof (cases "e \<in> seen")
    case False
    then show ?thesis using same old rd e
      by (auto simp: stands_for_def chunk_byte_def ext_loc_def covers_def)
  next
    case True
    with pk obtain e' where m: "map_of (remap p) (ext_key e) = Some e'" and pa: "packed_as V (outputs p) e e'"
      unfolding packed_def by blast
    from pa obtain k where k: "k < length (outputs p)" "ChunkID e' = fst (outputs p ! k)"
      and l: "0 < Length e \<longrightarrow> (\<exists>c. V (ChunkID e) = Some c \<and> ext_in e c \<and> ext_in e' (snd (outputs p ! k))
             \<and> ext_data e' (snd (outputs p ! k)) = ext_data e c)"
      and r: "FileOffset e' = FileOffset e" "Length e' = Length e" unfolding packed_as_def by blast
    have "V' (ChunkID e') = Some (snd (outputs p ! k))" if "0 < Length e"
    proof -
      have "snd (outputs p ! k) \<noteq> []" using l that r by (auto simp: ext_in_def)
      then show ?thesis using new [of "outputs p ! k"] k by simp
    qed
    then show ?thesis
      using m r l stands_forI [of e' e V "the (V (ChunkID e))" V' "snd (outputs p ! k)"]
      by (auto simp: remapped_def)
  qed
qed

lemma remapped_live: "extents a = extents (RemapExtents rm idx) \<Longrightarrow> set (LiveExtents a) = remapped rm ` set (LiveExtents idx)"
  by (simp add: LiveExtents_def RemapExtents_def remap_list_map image_UN case_prod_beta)

lemma readable_sub: "readable V live \<Longrightarrow> set es \<subseteq> set live \<Longrightarrow> readable V es"
  by (auto simp: readable_def)

context store_contract
begin

text \<open>Selecting and packing change neither the objects nor the chunk store.\<close>

lemma Compact_packs:
  assumes w: "swf s" and inv: "cs_inv (objs s) cs fs"
    and rd: "readable (chunk_view (objs s) cs) live" and u: "unique_keys live"
    and pe: "pack_extents S clock sz cs (concat (map (live_in live) targets)) (pack_start clock) s fs = (r, s', fs')"
  shows "swf s' \<and> objs s' = objs s \<and> (\<forall>p. r = Inr p \<longrightarrow> outs_ok clock p
           \<and> packed (chunk_view (objs s) cs) (set (concat (map (live_in live) targets))) p)"
proof -
  let ?es = "concat (map (live_in live) targets)"
  have sub: "set ?es \<subseteq> set live" unfolding target_exts by blast
  have "packed (chunk_view (objs s) cs) {} (pack_start clock)" by (simp add: packed_def pack_start_ok)
  moreover note readable_sub [OF rd sub]
  moreover have "a = b" if "a \<in> {} \<union> set ?es" "b \<in> {} \<union> set ?es" "ext_key a = ext_key b" for a b
    using that u sub unfolding unique_keys_def by blast
  ultimately show ?thesis
    using pack_extents_ok [OF w _ pack_start_ok(1) _ _ _ pe, of "{}"] inv by auto
qed

text \<open>Writing the outputs touches no existing chunk; once all are written, every live extent is
  represented by its remapped extent.\<close>

lemma outputs_fresh:
  assumes ok: "outs_ok clock p" and inv: "cs_inv Os cs fs" and fresh: "fresh_outputs Os clock"
  shows "\<And>j. Os j \<noteq> None \<Longrightarrow> j \<notin> fst ` set (outputs p)" and "activeID cs \<notin> fst ` set (outputs p)"
    and "\<forall>x \<in> set (outputs p). object_id (fst x)"
proof -
  show "j \<notin> fst ` set (outputs p)" if "Os j \<noteq> None" for j
    using outs_ids(2) [OF ok] fresh that by (force simp: fresh_outputs_def)
  show "activeID cs \<notin> fst ` set (outputs p)"
    using outs_ids(2) [OF ok] inv compacted_not_chunk by (force simp: cs_inv_def seq_inv_def)
  show "\<forall>x \<in> set (outputs p). object_id (fst x)" using outs_ids(2) [OF ok] object_compacted_id by metis
qed

lemma Compact_writes:
  assumes w: "swf s" and inv: "cs_inv (objs s) cs fs" and fresh: "fresh_outputs (objs s) clock"
    and rd: "readable (chunk_view (objs s) cs) live"
    and ok: "outs_ok clock p" and wr: "write_outputs S (outputs p) s = (r, s')"
  shows "swf s'"
    and "\<And>e. e \<in> set live \<Longrightarrow> 0 < Length e \<Longrightarrow>
           chunk_view (objs s') cs (ChunkID e) = chunk_view (objs s) cs (ChunkID e)"
    and "\<And>x. r = Inr () \<Longrightarrow> x \<in> set (outputs p) \<Longrightarrow> snd x \<noteq> [] \<Longrightarrow> chunk_view (objs s') cs (fst x) = Some (snd x)"
proof -
  note fr = outputs_fresh [OF ok inv fresh]
  note k = write_outputs_ok [OF w fr(3) wr]
  show "swf s'" using k by simp
  have o: "objs s' j = objs s j" if "j \<notin> fst ` set (outputs p)" for j using k that by simp
  show "chunk_view (objs s') cs (ChunkID e) = chunk_view (objs s) cs (ChunkID e)"
    if "e \<in> set live" "0 < Length e" for e
    using rd that fr(1) o by (auto simp: readable_def chunk_view_def split: if_splits)
  show "chunk_view (objs s') cs (fst x) = Some (snd x)"
    if "r = Inr ()" "x \<in> set (outputs p)" "snd x \<noteq> []" for x
  proof -
    have "objs s' (fst x) = Some (snd x)" using k that outs_ids(1) [OF ok] by simp
    moreover have "fst x \<noteq> activeID cs" using that fr(2) by force
    ultimately show ?thesis by (simp add: chunk_view_def)
  qed
qed

text \<open>Deleting the targets removes no chunk that a remapped extent names.\<close>

lemma Compact_deletes:
  assumes w: "swf s" and tid: "\<forall>j \<in> set targets. object_id j" and dl: "DeleteChunks S targets s = (r, s')"
    and live: "\<And>e. e \<in> set (LiveExtents idx) \<Longrightarrow> ChunkID e \<notin> set targets"
  shows "file_byte (chunk_view (objs s') cs) idx i b = file_byte (chunk_view (objs s) cs) idx i b"
proof (rule file_byte_cong)
  fix e assume "e \<in> set (LiveExtents idx)"
  then show "chunk_view (objs s') cs (ChunkID e) = chunk_view (objs s) cs (ChunkID e)"
    using DeleteChunks_safe(2) [OF w tid dl] live by (simp add: chunk_view_def)
qed

end

section \<open>The outcomes of a cycle\<close>

text \<open>The states a cycle goes through: the targets selected, the extents packed, the outputs
  written, the index persisted and the targets deleted. An error ends it at one of them.\<close>

definition selects :: "'s Store \<Rightarrow> f64 \<Rightarrow> index \<Rightarrow> chunk_store \<Rightarrow> 's \<Rightarrow> string list \<Rightarrow> string list \<Rightarrow> 's \<Rightarrow> bool" where
  "selects S t idx cs s ids ts s2 \<longleftrightarrow> (\<exists>s1. ListIDs S s = (Inr ids, s1)
     \<and> select_targets S t cs (LiveExtents idx) (filter (\<lambda>i. i \<noteq> activeID cs) ids) s1 = (ts, s2))"

definition target_extents :: "index \<Rightarrow> string list \<Rightarrow> Extent list" where
  "target_extents idx ts = concat (map (live_in (LiveExtents idx)) ts)"

definition writes_out ::
  "'s Store \<Rightarrow> (nat \<Rightarrow> int) \<Rightarrow> int \<Rightarrow> index \<Rightarrow> chunk_store \<Rightarrow> string list \<Rightarrow> 's \<Rightarrow> osfs \<Rightarrow> pack \<Rightarrow> (serror + unit) \<Rightarrow> 's \<Rightarrow> osfs \<Rightarrow> bool" where
  "writes_out S clock sz idx cs ts s2 fs p r s4 fs3 \<longleftrightarrow> (\<exists>s3.
     pack_extents S clock sz cs (target_extents idx ts) (pack_start clock) s2 fs = (Inr p, s3, fs3)
     \<and> write_outputs S (outputs p) s3 = (r, s4))"

lemma CompactE:
  assumes "Compact S P clock t sz idx cs s fs = (r, idx', cs', s', fs')"
  obtains
    (unlisted) e where "ListIDs S s = (Inl e, s')" "r = Inl (ListFailed e)" "idx' = idx" "cs' = cs" "fs' = fs"
  | (idle) ids where "selects S t idx cs s ids [] s'" "r = Inr ()" "idx' = idx" "cs' = cs" "fs' = fs"
  | (unread) ids ts s2 e where "selects S t idx cs s ids ts s2" "ts \<noteq> []"
      "pack_extents S clock sz cs (target_extents idx ts) (pack_start clock) s2 fs = (Inl e, s', fs')"
      "r = Inl (ReadFailed e)" "idx' = idx" "cs' = cs"
  | (unwritten) ids ts s2 p e where "selects S t idx cs s ids ts s2" "ts \<noteq> []"
      "writes_out S clock sz idx cs ts s2 fs p (Inl e) s' fs'" "r = Inl (WriteFailed e)" "idx' = idx" "cs' = cs"
  | (unpersisted) ids ts s2 p s4 fs3 e where "selects S t idx cs s ids ts s2" "ts \<noteq> []"
      "writes_out S clock sz idx cs ts s2 fs p (Inr ()) s4 fs3"
      "P (RemapExtents (remap p) idx) cs s4 fs3 = (Inl e, idx', cs', s', fs')" "r = Inl (PersistFailed e)"
  | (swept) ids ts s2 p s4 fs3 s5 q where "selects S t idx cs s ids ts s2" "ts \<noteq> []"
      "writes_out S clock sz idx cs ts s2 fs p (Inr ()) s4 fs3"
      "P (RemapExtents (remap p) idx) cs s4 fs3 = (Inr (), idx', cs', s5, fs')"
      "DeleteChunks S ts s5 = (q, s')" "r = (case q of Inl e \<Rightarrow> Inl (DeleteFailed e) | Inr _ \<Rightarrow> Inr ())"
proof -
  obtain r1 s1 where l: "ListIDs S s = (r1, s1)" by force
  show thesis
  proof (cases r1)
    case (Inl e)
    then show ?thesis using assms l unlisted by (simp add: Compact_def ListSealed_def)
  next
    case r1: (Inr ids)
    obtain ts s2 where q: "select_targets S t cs (LiveExtents idx) (filter (\<lambda>i. i \<noteq> activeID cs) ids) s1 = (ts, s2)" by force
    have sel: "selects S t idx cs s ids ts s2" unfolding selects_def using l r1 q by blast
    obtain r3 s3 fs3 where pe: "pack_extents S clock sz cs (target_extents idx ts) (pack_start clock) s2 fs = (r3, s3, fs3)"
      by (cases "pack_extents S clock sz cs (target_extents idx ts) (pack_start clock) s2 fs")
    note E = assms [unfolded Compact_def ListSealed_def Let_def l r1 sum.case prod.case q, folded target_extents_def,
        unfolded pe prod.case]
    show ?thesis
    proof (cases "ts = []")
      case True
      note E' = E [unfolded if_P [OF True]]
      show ?thesis by (rule idle [of ids]) (use E' sel True in simp_all)
    next
      case ts: False
      show ?thesis
      proof (cases r3)
        case (Inl e)
        note E' = E [unfolded Inl sum.case if_not_P [OF ts]]
        show ?thesis by (rule unread [OF sel ts, of e]) (use E' pe Inl in simp_all)
      next
        case (Inr p)
        obtain r4 s4 where wr: "write_outputs S (outputs p) s3 = (r4, s4)" by force
        have wo: "writes_out S clock sz idx cs ts s2 fs p r4 s4 fs3" unfolding writes_out_def using pe wr Inr by blast
        obtain r5 idx5 cs5 s5 fs5 where pp: "P (RemapExtents (remap p) idx) cs s4 fs3 = (r5, idx5, cs5, s5, fs5)"
          by (metis prod_cases5)
        obtain r6 s6 where dl: "DeleteChunks S ts s5 = (r6, s6)" by force
        show ?thesis
        proof (cases r4)
          case (Inl e)
          note E' = E [unfolded Inr sum.case wr prod.case Inl if_not_P [OF ts]]
          show ?thesis by (rule unwritten [OF sel ts, of p e]) (use E' wo Inl in simp_all)
        next
          case r4: (Inr u)
          have wo: "writes_out S clock sz idx cs ts s2 fs p (Inr ()) s4 fs3" using wo r4 by simp
          note E' = E [unfolded Inr sum.case wr prod.case r4 pp if_not_P [OF ts]]
          show ?thesis
          proof (cases r5)
            case (Inl e)
            then show ?thesis using E' pp by (intro unpersisted [OF sel ts wo]) auto
          next
            case r5: (Inr u)
            show ?thesis
              by (rule swept [OF sel ts wo, of s5 r6]) (use E' pp r5 dl in \<open>cases r6; auto\<close>)+
          qed
        qed
      qed
    qed
  qed
qed

context store_contract
begin

lemma selects_keeps:
  assumes "swf s" and "selects S t idx cs s ids ts s2"
  shows "swf s2" "objs s2 = objs s" "set ts \<subseteq> set ids" "activeID cs \<notin> set ts"
    and "\<forall>i \<in> set ids. object_id i \<Longrightarrow> j \<in> set ts \<Longrightarrow> object_id j \<and> objs s j \<noteq> None"
proof -
  from assms(2) obtain s1 where l: "ListIDs S s = (Inr ids, s1)"
    and q: "select_targets S t cs (LiveExtents idx) (filter (\<lambda>i. i \<noteq> activeID cs) ids) s1 = (ts, s2)"
    unfolding selects_def by blast
  note k1 = list_keeps [OF assms(1) l]
  have k: "swf s2 \<and> objs s2 = objs s1 \<and> set ts \<subseteq> set (filter (\<lambda>i. i \<noteq> activeID cs) ids)"
    using k1 by (intro select_targets_keeps [OF _ q]) simp
  then show "swf s2" "objs s2 = objs s" "set ts \<subseteq> set ids" "activeID cs \<notin> set ts" using k1 by auto
  show "object_id j \<and> objs s j \<noteq> None" if "\<forall>i \<in> set ids. object_id i" "j \<in> set ts"
    using k that list_ok [OF assms(1) l, of j] by auto
qed

lemma target_extents_live: "set (target_extents idx ts) = {e \<in> set (LiveExtents idx). ChunkID e \<in> set ts}"
  unfolding target_extents_def by (rule target_exts)

text \<open>The state when the outputs are written, completely or not.\<close>

lemma writes_out_ok:
  assumes w: "swf s" and inv: "cs_inv (objs s) cs fs"
    and rd: "readable (chunk_view (objs s) cs) (LiveExtents idx)" and u: "unique_keys (LiveExtents idx)"
    and fresh: "fresh_outputs (objs s) clock" and wo: "writes_out S clock sz idx cs ts s fs p r s4 fs3"
  shows "swf s4" and "outs_ok clock p" and "packed (chunk_view (objs s) cs) (set (target_extents idx ts)) p"
    and "\<And>i. i \<notin> fst ` set (outputs p) \<Longrightarrow> objs s4 i = objs s i"
    and "\<And>e. e \<in> set (LiveExtents idx) \<Longrightarrow> 0 < Length e \<Longrightarrow>
           chunk_view (objs s4) cs (ChunkID e) = chunk_view (objs s) cs (ChunkID e)"
    and "\<And>x. r = Inr () \<Longrightarrow> x \<in> set (outputs p) \<Longrightarrow> snd x \<noteq> [] \<Longrightarrow> chunk_view (objs s4) cs (fst x) = Some (snd x)"
proof -
  from wo obtain s3 where pe: "pack_extents S clock sz cs (target_extents idx ts) (pack_start clock) s fs = (Inr p, s3, fs3)"
    and wr: "write_outputs S (outputs p) s3 = (r, s4)" unfolding writes_out_def by blast
  note k3 = Compact_packs [OF w inv rd u pe [unfolded target_extents_def], folded target_extents_def]
  then have s3: "swf s3" "objs s3 = objs s" "outs_ok clock p" by simp_all
  note k4 = Compact_writes [OF s3(1) _ _ _ s3(3) wr, unfolded s3(2), OF inv fresh rd]
  show "swf s4" "outs_ok clock p" "packed (chunk_view (objs s) cs) (set (target_extents idx ts)) p"
    using k3 k4(1) by simp_all
  show "objs s4 i = objs s i" if "i \<notin> fst ` set (outputs p)" for i
    using write_outputs_ok [OF s3(1) outputs_fresh(3) [OF s3(3) inv fresh] wr] that s3(2) by simp
  show "chunk_view (objs s4) cs (ChunkID e) = chunk_view (objs s) cs (ChunkID e)"
    if "e \<in> set (LiveExtents idx)" "0 < Length e" for e by (rule k4(2) [OF that])
  show "chunk_view (objs s4) cs (fst x) = Some (snd x)"
    if "r = Inr ()" "x \<in> set (outputs p)" "snd x \<noteq> []" for x by (rule k4(3) [OF that])
qed

text \<open>Once all outputs are written, the remapped index gives every file the bytes it had, and
  names none of the targets.\<close>

lemma remapped_index:
  assumes w: "swf s" and inv: "cs_inv (objs s) cs fs"
    and rd: "readable (chunk_view (objs s) cs) (LiveExtents idx)" and u: "unique_keys (LiveExtents idx)"
    and fresh: "fresh_outputs (objs s) clock" and wo: "writes_out S clock sz idx cs ts s fs p (Inr ()) s4 fs3"
    and ts: "\<forall>j \<in> set ts. objs s j \<noteq> None" and x: "extents idx' = extents (RemapExtents (remap p) idx)"
  shows "file_byte (chunk_view (objs s4) cs) idx' i b = file_byte (chunk_view (objs s) cs) idx i b"
    and "e \<in> set (LiveExtents idx') \<Longrightarrow> ChunkID e \<notin> set ts"
proof -
  let ?es = "target_extents idx ts"
  note k = writes_out_ok [OF w inv rd u fresh wo]
  have sub: "set ?es \<subseteq> set (LiveExtents idx)" unfolding target_extents_live by blast
  note st = remapped_stands [OF k(3) u sub _ rd k(6) k(5)]
  have "file_byte (chunk_view (objs s4) cs) (RemapExtents (remap p) idx) i b = file_byte (chunk_view (objs s) cs) idx i b"
    unfolding file_byte_def RemapExtents_file remap_list_map
    by (rule exts_byte_map) (use st(1) file_extents_live in blast)
  then show "file_byte (chunk_view (objs s4) cs) idx' i b = file_byte (chunk_view (objs s) cs) idx i b"
    using file_byte_extents [OF x] by simp
  show "ChunkID e \<notin> set ts" if e: "e \<in> set (LiveExtents idx')"
  proof -
    obtain y where y: "y \<in> set (LiveExtents idx)" "e = remapped (remap p) y"
      using e remapped_live [OF x] by auto
    show ?thesis
    proof (cases "y \<in> set ?es")
      case True
      then have "ChunkID e \<in> fst ` set (outputs p)" using st(2) [OF y(1)] y by blast
      then show ?thesis using outputs_fresh(1) [OF k(2) inv fresh] ts by blast
    next
      case False
      then have "e = y" using st(3) [OF y(1)] y by blast
      then show ?thesis using False y(1) unfolding target_extents_live by blast
    qed
  qed
qed

lemma Compact_preserves:
  assumes w: "swf s" and inv: "cs_inv (objs s) cs fs"
    and rd: "readable (chunk_view (objs s) cs) (LiveExtents idx)" and u: "unique_keys (LiveExtents idx)"
    and fresh: "fresh_outputs (objs s) clock"
    and lst: "\<And>ids s'. ListIDs S s = (Inr ids, s') \<Longrightarrow> \<forall>i \<in> set ids. object_id i"
    and P: "persist_keeps objs swf P"
    and C: "Compact S P clock t sz idx cs s fs = (r, idx', cs', s', fs')"
  shows "file_byte (chunk_view (objs s') cs') idx' i b = file_byte (chunk_view (objs s) cs) idx i b"
proof -
  have ids: "\<forall>i \<in> set ids. object_id i" if "selects S t idx cs s ids ts s2" for ids ts s2
    using that lst unfolding selects_def by blast
  have wr: "file_byte (chunk_view (objs s4) cs) idx i b = file_byte (chunk_view (objs s) cs) idx i b"
    if "selects S t idx cs s ids ts s2" "writes_out S clock sz idx cs ts s2 fs p q s4 fs3" for ids ts s2 p q s4 fs3
    using writes_out_ok(5) [OF _ _ _ u _ that(2)] selects_keeps(1,2) [OF w that(1)] inv rd fresh
    by (intro file_byte_cong) simp
  have ps: "swf s5 \<and> (\<forall>e \<in> set (LiveExtents idx5). ChunkID e \<notin> set ts) \<and> activeID cs5 = activeID cs
      \<and> file_byte (chunk_view (objs s5) cs5) idx5 i b = file_byte (chunk_view (objs s) cs) idx i b"
    if sel: "selects S t idx cs s ids ts s2" and wo: "writes_out S clock sz idx cs ts s2 fs p (Inr ()) s4 fs3"
      and pp: "P (RemapExtents (remap p) idx) cs s4 fs3 = (q, idx5, cs5, s5, fs5)" for ids ts s2 p s4 fs3 q idx5 cs5 s5 fs5
  proof -
    note k2 = selects_keeps [OF w sel]
    have s2: "cs_inv (objs s2) cs fs" "readable (chunk_view (objs s2) cs) (LiveExtents idx)"
      "fresh_outputs (objs s2) clock" "\<forall>j \<in> set ts. objs s2 j \<noteq> None"
      using inv rd fresh k2(5) [OF ids [OF sel]] unfolding k2(2) by blast+
    have k5: "swf s5" "extents idx5 = extents (RemapExtents (remap p) idx)" "activeID cs5 = activeID cs"
      "chunk_view (objs s5) cs5 = chunk_view (objs s4) cs"
      using P pp writes_out_ok(1) [OF k2(1) s2(1,2) u s2(3) wo] inv_active_id [OF inv] unfolding persist_keeps_def by blast+
    note k6 = remapped_index [OF k2(1) s2(1,2) u s2(3) wo s2(4) k5(2)]
    show ?thesis using k5 k6 k2(2) by simp
  qed
  from C show ?thesis
  proof (cases rule: CompactE)
    case (unlisted e)
    then show ?thesis using list_keeps [OF w unlisted(1)] by simp
  next
    case (idle ids)
    then show ?thesis using selects_keeps(2) [OF w idle(1)] by simp
  next
    case (unread ids ts s2 e)
    note k2 = selects_keeps [OF w unread(1)]
    have "objs s' = objs s2"
      using Compact_packs [OF k2(1) _ _ u unread(3) [unfolded target_extents_def]] inv rd k2(2) by simp
    then show ?thesis using unread k2 by simp
  next
    case (unwritten ids ts s2 p e)
    then show ?thesis using wr [OF unwritten(1,3)] by simp
  next
    case (unpersisted ids ts s2 p s4 fs3 e)
    then show ?thesis using ps [OF unpersisted(1,3,4)] by simp
  next
    case (swept ids ts s2 p s4 fs3 s5 q)
    have tid: "\<forall>j \<in> set ts. object_id j" using selects_keeps(5) [OF w swept(1) ids [OF swept(1)]] by blast
    have k5: "swf s5" "\<And>e. e \<in> set (LiveExtents idx') \<Longrightarrow> ChunkID e \<notin> set ts"
      "file_byte (chunk_view (objs s5) cs') idx' i b = file_byte (chunk_view (objs s) cs) idx i b"
      using ps [OF swept(1,3,4)] by blast+
    show ?thesis using Compact_deletes [OF k5(1) tid swept(5) k5(2)] k5(3) by simp
  qed
qed

end

end
