(* ===== verification/Compactor_Live.thy ===== *)
theory Compactor_Live
  imports Compactor_Thm
begin

text \<open>
  What a cycle gains: exactly which chunks it selects, that the outputs respect the chunk
  size, and that on a working store the cycle only fails where the persist function does.
\<close>

section \<open>Sizes of the outputs\<close>

definition outs_small :: "int \<Rightarrow> pack \<Rightarrow> bool" where
  "outs_small sz p \<longleftrightarrow> (\<forall>x \<in> set (outputs p). int (length (snd x)) \<le> sz)"

lemma last_small: "outs_small sz p \<Longrightarrow> outputs p \<noteq> [] \<Longrightarrow> int (length (snd (last (outputs p)))) \<le> sz"
  by (simp add: outs_small_def)

lemma place_small:
  assumes ok: "outputs p \<noteq> []" and sm: "outs_small sz p" and sz: "0 \<le> sz" "sz < 2 ^ 62"
    and d: "int (length data) = Length e" "Length e \<le> sz"
  shows "outs_small sz (place clock sz e data p)"
proof -
  define p1 where "p1 = (if snd (last (outputs p)) \<noteq> [] \<and> sz < i64 (int (length (snd (last (outputs p)))) + Length e)
      then newOutput clock p else p)"
  have "i64 (int (length (snd (last (outputs p)))) + Length e) = int (length (snd (last (outputs p)))) + Length e"
    using last_small [OF sm ok] sz d by (intro i64_nonneg) simp_all
  then have l: "int (length (snd (last (outputs p1)) @ data)) \<le> sz"
    using d by (auto simp: p1_def newOutput_def)
  have s1: "outs_small sz p1" using sm sz by (auto simp: p1_def outs_small_def newOutput_def)
  have "x \<in> set (outputs p1)" if "x \<in> set (butlast (outputs p1))" for x using that by (rule in_set_butlastD)
  with s1 l show ?thesis
    unfolding place_def Let_def p1_def [symmetric] outs_small_def by auto
qed

definition bounded_exts :: "int \<Rightarrow> Extent list \<Rightarrow> bool" where
  "bounded_exts sz es \<longleftrightarrow> (\<forall>e \<in> set es. 0 < Length e \<and> Length e \<le> sz)"

context store_contract
begin

lemma pack_extents_small:
  "swf s \<Longrightarrow> cs_inv (objs s) cs fs \<Longrightarrow> readable (chunk_view (objs s) cs) es \<Longrightarrow> bounded_exts sz es \<Longrightarrow>
   0 \<le> sz \<Longrightarrow> sz < 2 ^ 62 \<Longrightarrow> outputs p \<noteq> [] \<Longrightarrow> outs_small sz p \<Longrightarrow>
   pack_extents S clock sz cs es p s fs = (Inr p', s', fs') \<Longrightarrow> outs_small sz p'"
proof (induction es arbitrary: p s fs)
  case Nil
  then show ?case by simp
next
  case (Cons e es)
  obtain r1 s1 fs1 where rd: "Read S (ChunkID e) (ChunkOffset e) (Length e) cs s fs = (r1, s1, fs1)"
    by (cases "Read S (ChunkID e) (ChunkOffset e) (Length e) cs s fs")
  with Cons.prems(9) obtain data where r1: "r1 = Inr data" by (cases r1) auto
  have id: "object_id (ChunkID e)" and l: "0 < Length e" "Length e \<le> sz"
    using Cons.prems(3,4) by (simp_all add: readable_def bounded_exts_def)
  obtain c where c: "chunk_view (objs s) cs (ChunkID e) = Some c" "ext_in e c"
    using Cons.prems(3) l by (auto simp: readable_def)
  note k = Read_safe(1) [OF Cons.prems(1,2) id rd]
  have "data = byte_slice (ChunkOffset e) (Length e) c"
    using l c by (intro Read_safe(2) [OF Cons.prems(1,2) id rd r1]) (simp_all add: ext_in_def)
  then have d: "int (length data) = Length e" using c(2) by (simp add: ext_in_def length_byte_slice)
  show ?case
  proof (rule Cons.IH [of s1 fs1 "place clock sz e data p"])
    show "outs_small sz (place clock sz e data p)"
      using Cons.prems(5-8) d l by (intro place_small) simp_all
    show "outputs (place clock sz e data p) \<noteq> []" by (simp add: place_def Let_def)
  qed (use Cons.prems k rd r1 in \<open>simp_all add: readable_def bounded_exts_def\<close>)
qed

lemma write_outputs_cases:
  "swf s \<Longrightarrow> \<forall>x \<in> set outs. object_id (fst x) \<Longrightarrow> write_outputs S outs s = (r, s') \<Longrightarrow> distinct (map fst outs) \<Longrightarrow>
   objs s' i = objs s i \<or> (\<exists>x \<in> set outs. objs s' i = Some (snd x))"
proof (induction outs arbitrary: s)
  case Nil
  then show ?case by simp
next
  case (Cons x outs)
  obtain j b where x: "x = (j, b)" by force
  show ?case
  proof (cases "b = []")
    case True
    then show ?thesis using Cons.IH [of s] Cons.prems x by auto
  next
    case False
    obtain r1 s1 where p: "Put S j b s = (r1, s1)" by force
    have id: "object_id j" using Cons.prems(2) x by simp
    have w1: "swf s1" by (rule put_wf [OF Cons.prems(1) id p])
    have o1: "objs s1 i = objs s i \<or> objs s1 i = Some b"
      using Cons.prems(1) id p by (cases rule: put_cases) auto
    have "s' = s1 \<or> write_outputs S outs s1 = (r, s')"
      using Cons.prems(3) x False p by (cases r1) (auto simp: PutSealed_def)
    then show ?thesis using o1 Cons.IH [OF w1] Cons.prems x by auto
  qed
qed

end

section \<open>Selection\<close>

text \<open>The chunks a cycle selects: empty ones, and those whose orphaned fraction reaches the threshold.\<close>

definition chosen :: "objects \<Rightarrow> f64 \<Rightarrow> Extent list \<Rightarrow> string \<Rightarrow> bool" where
  "chosen Os t live i \<longleftrightarrow> (\<exists>c. Os i = Some c \<and> (c = [] \<or> f64_ge (orphan_frac (int (length c)) (live_in live i)) t))"

lemma foldl_length: "foldl (\<lambda>a e. i64 (a + Length e)) (i64 t) es = i64 (t + (\<Sum>e\<leftarrow>es. Length e))"
  by (induction es arbitrary: t) (simp_all add: i64_add_left add.assoc)

lemma orphan_frac_eq:
  "orphan_frac tot es = f64_div (f64_of_int (i64 (tot - i64 (\<Sum>e\<leftarrow>es. Length e)))) (f64_of_int tot)"
  using foldl_length [of 0 es] by (simp add: orphan_frac_def i64_def)

lemma orphan_frac_full: "live_in live i = [] \<Longrightarrow> 0 < tot \<Longrightarrow> tot < 2 ^ 63 \<Longrightarrow> orphan_frac tot (live_in live i) = 1"
  by (simp add: orphan_frac_eq f64_div_self i64_nonneg)

lemma orphan_frac_none:
  "(\<Sum>e\<leftarrow>es. Length e) = tot \<Longrightarrow> 0 < tot \<Longrightarrow> tot < 2 ^ 63 \<Longrightarrow> orphan_frac tot es = 0"
  by (simp add: orphan_frac_eq i64_nonneg)

definition persist_good :: "('s \<Rightarrow> bool) \<Rightarrow> 's persist \<Rightarrow> bool" where
  "persist_good good P \<longleftrightarrow> (\<forall>idx cs s fs r idx' cs' s' fs'.
     P idx cs s fs = (r, idx', cs', s', fs') \<longrightarrow> good s \<longrightarrow> good s')"

context store_live
begin

lemma select_targets_exact:
  "good s \<Longrightarrow> \<forall>i \<in> set ids. object_id i \<and> objs s i \<noteq> None \<and> i \<noteq> activeID cs \<Longrightarrow>
   \<exists>s'. select_targets S t cs live ids s = (filter (chosen (objs s) t live) ids, s') \<and> good s' \<and> objs s' = objs s"
proof (induction ids arbitrary: s)
  case Nil
  then show ?case by simp
next
  case (Cons i ids)
  then obtain c where c: "object_id i" "objs s i = Some c" "i \<noteq> activeID cs" by auto
  obtain s1 where z: "SizeOf S i s = (Inr (int (length c)), s1)" "good s1" "objs s1 = objs s"
    by (rule size_exact [OF Cons.prems(1) c(1,2)])
  have "\<forall>i \<in> set ids. object_id i \<and> objs s1 i \<noteq> None \<and> i \<noteq> activeID cs" using Cons.prems(2) z(3) by simp
  from Cons.IH [OF z(2) this] z(3) obtain s2 where
    "select_targets S t cs live ids s1 = (filter (chosen (objs s) t live) ids, s2)" "good s2" "objs s2 = objs s" by auto
  moreover have "chosen (objs s) t live i \<longleftrightarrow> c = [] \<or> f64_ge (orphan_frac (int (length c)) (live_in live i)) t"
    by (simp add: chosen_def c)
  ultimately show ?case using z c by (simp add: SealedSize_def)
qed

lemma pack_extents_live:
  "good s \<Longrightarrow> cs_inv (objs s) cs fs \<Longrightarrow> disk_good cs fs \<Longrightarrow> readable (chunk_view (objs s) cs) es \<Longrightarrow>
   \<forall>e \<in> set es. 0 < Length e \<Longrightarrow>
   \<exists>p' s' fs'. pack_extents S clock sz cs es p s fs = (Inr p', s', fs') \<and> good s' \<and> disk_good cs fs'"
proof (induction es arbitrary: p s fs)
  case Nil
  then show ?case by simp
next
  case (Cons e es)
  have id: "object_id (ChunkID e)" and l: "0 < Length e" using Cons.prems(4,5) by (simp_all add: readable_def)
  obtain c where c: "chunk_view (objs s) cs (ChunkID e) = Some c" "ext_in e c"
    using Cons.prems(4) l by (auto simp: readable_def)
  then have "0 \<le> ChunkOffset e" "ChunkOffset e + Length e \<le> int (length c)" by (simp_all add: ext_in_def)
  from Read_live [OF Cons.prems(1,2,3) id c(1) this(1) l this(2)] obtain d s1 fs1 where
    rd: "Read S (ChunkID e) (ChunkOffset e) (Length e) cs s fs = (Inr d, s1, fs1)" "good s1" "disk_good cs fs1" by blast
  note k = Read_safe(1) [OF good_wf [OF Cons.prems(1)] Cons.prems(2) id rd(1)]
  have "\<exists>p' s' fs'. pack_extents S clock sz cs es (place clock sz e d p) s1 fs1 = (Inr p', s', fs') \<and> good s' \<and> disk_good cs fs'"
    using Cons.prems k rd by (intro Cons.IH) (simp_all add: readable_def)
  then show ?case using rd by simp
qed

lemma write_outputs_live:
  "good s \<Longrightarrow> \<forall>x \<in> set outs. object_id (fst x) \<Longrightarrow> \<exists>s'. write_outputs S outs s = (Inr (), s') \<and> good s'"
proof (induction outs arbitrary: s)
  case Nil
  then show ?case by simp
next
  case (Cons x outs)
  obtain i b where x: "x = (i, b)" by force
  from put_live [OF Cons.prems(1), of i b] Cons.prems(2) x obtain s1 where
    p: "Put S i b s = (Inr (), s1)" "good s1" by auto
  from Cons.IH [OF Cons.prems(1)] Cons.IH [OF p(2)] Cons.prems(2) show ?case by (simp add: x p PutSealed_def)
qed

lemma DeleteChunks_live:
  "good s \<Longrightarrow> \<forall>i \<in> set ids. object_id i \<Longrightarrow> \<exists>s'. DeleteChunks S ids s = (Inr (), s') \<and> good s'"
proof (induction ids arbitrary: s)
  case Nil
  then show ?case by simp
next
  case (Cons i ids)
  from delete_live [OF Cons.prems(1), of i] Cons.prems(2) obtain s1 where "Delete S i s = (Inr (), s1)" "good s1" by auto
  with Cons.IH [of s1] Cons.prems(2) show ?case by simp
qed

text \<open>What a cycle selects on a working store.\<close>

lemma selects_exact:
  assumes g: "good s" and ids: "\<forall>i \<in> set ids. object_id i" and sel: "selects S t idx cs s ids ts s2"
  shows "good s2" and "ts = filter (chosen (objs s) t (LiveExtents idx)) (filter (\<lambda>i. i \<noteq> activeID cs) ids)"
    and "object_id i \<Longrightarrow> i \<in> set ids \<longleftrightarrow> objs s i \<noteq> None"
proof -
  from sel obtain s1 where l: "ListIDs S s = (Inr ids, s1)"
    and q: "select_targets S t cs (LiveExtents idx) (filter (\<lambda>i. i \<noteq> activeID cs) ids) s1 = (ts, s2)"
    unfolding selects_def by blast
  from list_live [OF g] l have g1: "good s1" by simp
  have o1: "objs s1 = objs s" using list_keeps [OF good_wf [OF g] l] by simp
  note lo = list_ok [OF good_wf [OF g] l]
  have "\<forall>i \<in> set (filter (\<lambda>i. i \<noteq> activeID cs) ids). object_id i \<and> objs s1 i \<noteq> None \<and> i \<noteq> activeID cs"
    using ids lo o1 by auto
  from select_targets_exact [OF g1 this, of t "LiveExtents idx"] q o1
  show "good s2" and "ts = filter (chosen (objs s) t (LiveExtents idx)) (filter (\<lambda>i. i \<noteq> activeID cs) ids)" by simp_all
  show "object_id i \<Longrightarrow> i \<in> set ids \<longleftrightarrow> objs s i \<noteq> None" by (rule lo)
qed

lemma Compact_live:
  assumes g: "good s" and inv: "cs_inv (objs s) cs fs" and dg: "disk_good cs fs"
    and rd: "readable (chunk_view (objs s) cs) (LiveExtents idx)"
    and l: "\<forall>e \<in> set (LiveExtents idx). 0 < Length e" and u: "unique_keys (LiveExtents idx)"
    and fresh: "fresh_outputs (objs s) clock"
    and lst: "\<And>ids s'. ListIDs S s = (Inr ids, s') \<Longrightarrow> \<forall>i \<in> set ids. object_id i"
    and P: "persist_good good P"
    and C: "Compact S P clock t sz idx cs s fs = (r, idx', cs', s', fs')"
  shows "r = Inr () \<or> (\<exists>e. r = Inl (PersistFailed e))"
proof -
  note w = good_wf [OF g]
  have ids: "\<forall>i \<in> set ids. object_id i" if "selects S t idx cs s ids ts s2" for ids ts s2
    using that lst unfolding selects_def by blast
  have wr: "q = Inr () \<and> good s4"
    if sel: "selects S t idx cs s ids ts s2" and wo: "writes_out S clock sz idx cs ts s2 fs p q s4 fs3" for ids ts s2 p q s4 fs3
  proof -
    note g2 = selects_exact(1) [OF g ids [OF sel] sel] and k2 = selects_keeps [OF w sel]
    note s2 = pack_extents_live [OF g2, unfolded k2(2), OF inv dg readable_sub [OF rd]]
    from wo obtain s3 where pe: "pack_extents S clock sz cs (target_extents idx ts) (pack_start clock) s2 fs = (Inr p, s3, fs3)"
      and wr: "write_outputs S (outputs p) s3 = (q, s4)" unfolding writes_out_def by blast
    have "good s3" using s2 [of "target_extents idx ts" clock sz "pack_start clock"] l pe
      by (auto simp: target_extents_live)
    moreover have "\<forall>x \<in> set (outputs p). object_id (fst x)"
      using outputs_fresh(3) [OF writes_out_ok(2) [OF k2(1) _ _ u _ wo]] inv rd fresh k2(2) by metis
    ultimately show ?thesis using write_outputs_live [of s3 "outputs p"] wr by auto
  qed
  from C show ?thesis
  proof (cases rule: CompactE)
    case (unlisted e)
    then show ?thesis using list_live [OF g] by auto
  next
    case (unread ids ts s2 e)
    note g2 = selects_exact(1) [OF g ids [OF unread(1)] unread(1)] and k2 = selects_keeps [OF w unread(1)]
    from pack_extents_live [OF g2, unfolded k2(2), OF inv dg readable_sub [OF rd], of "target_extents idx ts" clock sz "pack_start clock"] l unread(3)
    show ?thesis by (auto simp: target_extents_live)
  next
    case (unwritten ids ts s2 p e)
    then show ?thesis using wr [OF unwritten(1,3)] by simp
  next
    case (swept ids ts s2 p s4 fs3 s5 q)
    have "\<forall>j \<in> set ts. object_id j" using selects_keeps(5) [OF w swept(1) ids [OF swept(1)]] by blast
    moreover have "good s5" using wr [OF swept(1,3)] swept(4) P unfolding persist_good_def by blast
    ultimately have "q = Inr ()" using DeleteChunks_live [of s5 ts] swept(5) by auto
    then show ?thesis using swept(6) by simp
  qed simp_all
qed

text \<open>A chunk without live extents is deleted, a chunk without orphans is left alone.\<close>

lemma Compact_reclaims:
  assumes g: "good s" and inv: "cs_inv (objs s) cs fs"
    and rd: "readable (chunk_view (objs s) cs) (LiveExtents idx)" and u: "unique_keys (LiveExtents idx)"
    and fresh: "fresh_outputs (objs s) clock"
    and lst: "\<And>ids s'. ListIDs S s = (Inr ids, s') \<Longrightarrow> \<forall>i \<in> set ids. object_id i"
    and P: "persist_keeps objs swf P"
    and C: "Compact S P clock (Fin q) sz idx cs s fs = (Inr (), idx', cs', s', fs')"
    and i: "object_id i" "objs s i = Some c" "i \<noteq> activeID cs"
  shows "live_in (LiveExtents idx) i = [] \<Longrightarrow> q \<le> 1 \<Longrightarrow> objs s' i = None"
    and "(\<Sum>e\<leftarrow>live_in (LiveExtents idx) i. Length e) = int (length c) \<Longrightarrow> c \<noteq> [] \<Longrightarrow> 0 < q \<Longrightarrow> objs s' i = Some c"
proof -
  note w = good_wf [OF g]
  have ids: "\<forall>i \<in> set ids. object_id i" if "selects S t idx cs s ids ts s2" for t ids ts s2
    using that lst unfolding selects_def by blast
  have len: "int (length c) < 2 ^ 63" using cs_inv_len [OF inv, of i] i by (simp add: chunk_view_def)
  have sel: "i \<in> set ts \<longleftrightarrow> chosen (objs s) (Fin q) (LiveExtents idx) i" if "selects S (Fin q) idx cs s ids ts s2" for ids ts s2
    unfolding selects_exact(2) [OF g ids [OF that] that]
    using selects_exact(3) [OF g ids [OF that] that i(1)] i by simp
  have end_: "(chosen (objs s) (Fin q) (LiveExtents idx) i \<longrightarrow> objs s' i = None)
      \<and> (\<not> chosen (objs s) (Fin q) (LiveExtents idx) i \<longrightarrow> objs s' i = Some c)"
    using C
  proof (cases rule: CompactE)
    case (idle ids)
    then show ?thesis using sel [OF idle(1)] selects_keeps(2) [OF w idle(1)] i by simp
  next
    case (swept ids ts s2 p s4 fs3 s5 r)
    note k2 = selects_keeps [OF w swept(1)]
    have s2: "cs_inv (objs s2) cs fs" "readable (chunk_view (objs s2) cs) (LiveExtents idx)" "fresh_outputs (objs s2) clock"
      using inv rd fresh k2(2) by simp_all
    note k4 = writes_out_ok [OF k2(1) s2(1,2) u s2(3) swept(3)]
    have k5: "swf s5" "activeID cs' = activeID cs" "chunk_view (objs s5) cs' = chunk_view (objs s4) cs"
      using P swept(4) k4(1) inv_active_id [OF inv] unfolding persist_keeps_def by blast+
    have "objs s4 i = Some c" using k4(4) [of i] outputs_fresh(1) [OF k4(2) s2(1,3), of i] i k2(2) by simp
    then have "objs s5 i = Some c" using k5(2,3) i(3) by (auto simp: chunk_view_def fun_eq_iff dest: spec [of _ i])
    moreover have tid: "\<forall>j \<in> set ts. object_id j" using k2(5) [OF ids [OF swept(1)]] by blast
    moreover have "r = Inr ()" using swept(6) by (cases r) simp_all
    ultimately show ?thesis
      using sel [OF swept(1)] DeleteChunks_safe(2,4) [OF k5(1) tid swept(5), of i] by auto
  qed simp_all
  show "objs s' i = None" if "live_in (LiveExtents idx) i = []" "q \<le> 1"
    using end_ i that len orphan_frac_full [OF that(1), of "int (length c)"] by (auto simp: chosen_def f64_ge_def)
  show "objs s' i = Some c" if "(\<Sum>e\<leftarrow>live_in (LiveExtents idx) i. Length e) = int (length c)" "c \<noteq> []" "0 < q"
    using end_ i that len orphan_frac_none [OF that(1)] by (auto simp: chosen_def f64_ge_def)
qed

end

context store_contract
begin

text \<open>The objects a cycle creates are no longer than the chunk size.\<close>

lemma Compact_bounded:
  assumes w: "swf s" and inv: "cs_inv (objs s) cs fs"
    and rd: "readable (chunk_view (objs s) cs) (LiveExtents idx)" and u: "unique_keys (LiveExtents idx)"
    and fresh: "fresh_outputs (objs s) clock"
    and lst: "\<And>ids s'. ListIDs S s = (Inr ids, s') \<Longrightarrow> \<forall>i \<in> set ids. object_id i"
    and P: "persist_keeps objs swf P"
    and C: "Compact S P clock t sz idx cs s fs = (r, idx', cs', s', fs')"
    and b: "bounded_exts sz (LiveExtents idx)" and sz: "0 \<le> sz" "sz < 2 ^ 62"
    and i: "objs s' i = Some c" "i \<noteq> activeID cs"
  shows "objs s i = Some c \<or> int (length c) \<le> sz"
proof -
  have new: "objs s4 i = Some c \<Longrightarrow> objs s i = Some c \<or> int (length c) \<le> sz"
    and ps: "P idx1 cs s4 fs3 = (q', idx5, cs5, s5, fs5) \<Longrightarrow> swf s5 \<and> objs s5 i = objs s4 i"
    if sel: "selects S t idx cs s ids ts s2" and wo: "writes_out S clock sz idx cs ts s2 fs p q s4 fs3"
    for ids ts s2 p q s4 fs3 idx1 q' idx5 cs5 s5 fs5
  proof -
    note k2 = selects_keeps [OF w sel]
    have s2: "cs_inv (objs s2) cs fs" "readable (chunk_view (objs s2) cs) (LiveExtents idx)" "fresh_outputs (objs s2) clock"
      using inv rd fresh k2(2) by simp_all
    note k4 = writes_out_ok [OF k2(1) s2(1,2) u s2(3) wo]
    from wo obtain s3 where pe: "pack_extents S clock sz cs (target_extents idx ts) (pack_start clock) s2 fs = (Inr p, s3, fs3)"
      and wr: "write_outputs S (outputs p) s3 = (q, s4)" unfolding writes_out_def by blast
    have sub: "set (target_extents idx ts) \<subseteq> set (LiveExtents idx)" unfolding target_extents_live by blast
    have small: "outs_small sz p"
      by (rule pack_extents_small [OF k2(1) s2(1) readable_sub [OF s2(2) sub] _ sz _ _ pe])
        (use b sub sz in \<open>auto simp: bounded_exts_def pack_start_def newOutput_def outs_small_def\<close>)
    have k3: "swf s3" "objs s3 = objs s"
      using Compact_packs [OF k2(1) s2(1,2) u pe [unfolded target_extents_def]] k2(2) by simp_all
    note out = write_outputs_cases [OF k3(1) outputs_fresh(3) [OF k4(2) s2(1,3)] wr outs_ids(1) [OF k4(2)], of i]
    show "objs s i = Some c \<or> int (length c) \<le> sz" if "objs s4 i = Some c"
      using out that small k3(2) by (auto simp: outs_small_def)
    show "swf s5 \<and> objs s5 i = objs s4 i" if "P idx1 cs s4 fs3 = (q', idx5, cs5, s5, fs5)"
    proof -
      have "swf s5" "activeID cs5 = activeID cs" "chunk_view (objs s5) cs5 = chunk_view (objs s4) cs"
        using P that k4(1) inv_active_id [OF inv] unfolding persist_keeps_def by blast+
      then show ?thesis using i(2) by (auto simp: chunk_view_def fun_eq_iff dest: spec [of _ i])
    qed
  qed
  have ids: "\<forall>i \<in> set ids. object_id i" if "selects S t idx cs s ids ts s2" for ids ts s2
    using that lst unfolding selects_def by blast
  from C show ?thesis
  proof (cases rule: CompactE)
    case (unlisted e)
    then show ?thesis using list_keeps [OF w unlisted(1)] i by simp
  next
    case (idle ids)
    then show ?thesis using selects_keeps(2) [OF w idle(1)] i by simp
  next
    case (unread ids ts s2 e)
    note k2 = selects_keeps [OF w unread(1)]
    have "objs s' = objs s"
      using Compact_packs [OF k2(1) _ _ u unread(3) [unfolded target_extents_def]] inv rd k2(2) by simp
    then show ?thesis using i by simp
  next
    case (unwritten ids ts s2 p e)
    then show ?thesis using new i by blast
  next
    case (unpersisted ids ts s2 p s4 fs3 e)
    then show ?thesis using ps [OF unpersisted(1,3,4)] new [OF unpersisted(1,3)] i by simp
  next
    case (swept ids ts s2 p s4 fs3 s5 q)
    have tid: "\<forall>j \<in> set ts. object_id j" using selects_keeps(5) [OF w swept(1) ids [OF swept(1)]] by blast
    have p5: "swf s5" "objs s5 i = objs s4 i" using ps [OF swept(1,3,4)] by simp_all
    have "objs s5 i = Some c" using DeleteChunks_safe(3) [OF p5(1) tid swept(5), of i] i by auto
    then show ?thesis using new [OF swept(1,3)] p5 by simp
  qed
qed

end

end
