(* ===== verification/Chunk_Store_Props.thy ===== *)
theory Chunk_Store_Props
  imports Chunk_Store_Spec
begin

text \<open>
  The properties of the chunk store, for every backing store that keeps its contract,
  with instances on the local store.
\<close>

section \<open>Runs\<close>

text \<open>One call of a method of the chunk store, whatever its result.\<close>

inductive cs_step :: "'s Store \<Rightarrow> chunk_store \<times> 's \<times> osfs \<Rightarrow> chunk_store \<times> 's \<times> osfs \<Rightarrow> bool" for S where
  cs_append: "nextSeq cs < 2 ^ 63 - 1 \<Longrightarrow> Append S d fo cs s fs = (r, cs', s', fs') \<Longrightarrow>
    cs_step S (cs, s, fs) (cs', s', fs')"
| cs_seal: "nextSeq cs < 2 ^ 63 - 1 \<Longrightarrow> Seal S cs s fs = (r, cs', s', fs') \<Longrightarrow>
    cs_step S (cs, s, fs) (cs', s', fs')"
| cs_flush: "FlushActive S cs s = (r, cs', s') \<Longrightarrow> cs_step S (cs, s, fs) (cs', s', fs)"
| cs_read: "object_id i \<Longrightarrow> Read S i off n cs s fs = (r, s', fs') \<Longrightarrow> cs_step S (cs, s, fs) (cs, s', fs')"

inductive_cases cs_stepE: "cs_step S st st'"

context store_contract
begin

lemma cs_step_safe:
  assumes "cs_step S (cs, s, fs) (cs', s', fs')" and w: "swf s" and inv: "cs_inv (objs s) cs fs"
  shows "swf s' \<and> cs_inv (objs s') cs' fs' \<and> view_mono (chunk_view (objs s) cs) (chunk_view (objs s') cs')"
  using assms(1)
proof cases
  case (cs_append d fo r)
  from Append_safe [OF w inv this] show ?thesis by blast
next
  case (cs_seal r)
  from sealLocked_safe [OF w inv this(1) this(2) [unfolded Seal_def]] show ?thesis by blast
next
  case (cs_flush r)
  from FlushActive_safe [OF w inv this(2)] cs_flush(1) show ?thesis by simp
next
  case (cs_read i off n r)
  from Read_safe(1) [OF w inv this(2,3)] cs_read(1) show ?thesis by simp
qed

lemma cs_steps_safe:
  assumes "rtranclp (cs_step S) st st'" and "swf (fst (snd st))"
    and "cs_inv (objs (fst (snd st))) (fst st) (snd (snd st))"
  shows "swf (fst (snd st')) \<and> cs_inv (objs (fst (snd st'))) (fst st') (snd (snd st'))
    \<and> view_mono (chunk_view (objs (fst (snd st))) (fst st)) (chunk_view (objs (fst (snd st'))) (fst st'))"
  using assms
proof (induction rule: rtranclp_induct)
  case base
  then show ?case by simp
next
  case (step a b)
  obtain cs s fs cs' s' fs' where "a = (cs, s, fs)" "b = (cs', s', fs')" by (metis prod_cases3)
  with step cs_step_safe [of cs s fs cs' s' fs'] show ?case by (auto intro: view_mono_trans)
qed

end

section \<open>A concrete chunk store\<close>

definition ex_dir :: path where "ex_dir = [''d'']"
definition ex_fs :: osfs where "ex_fs = \<lparr>files = [], dirs = [[], [''d''], [''c'']], dirSize = 0, faults = []\<rparr>"
definition ex_cs :: chunk_store where "ex_cs = (NewChunkStore 10)\<lparr>cache := Some [''c'']\<rparr>"

text \<open>Three appends of four bytes: the third does not fit and seals the first chunk.\<close>

definition ex_run1 where "ex_run1 = Append (LocalStore ex_dir) ''abcd'' 0 ex_cs ex_fs ex_fs"
definition ex_run2 where "ex_run2 = (case ex_run1 of (r, cs, s, fs) \<Rightarrow> Append (LocalStore ex_dir) ''efgh'' 4 cs s fs)"
definition ex_run3 where "ex_run3 = (case ex_run2 of (r, cs, s, fs) \<Rightarrow> Append (LocalStore ex_dir) ''ijkl'' 8 cs s fs)"

definition ex_e1 :: Extent where
  "ex_e1 = \<lparr>ChunkID = ''chunk-00000000'', ChunkOffset = 0, Length = 4, FileOffset = 0\<rparr>"

lemma ex_no_objs: "local_objs ex_dir ex_fs = (\<lambda>_. None)"
  by (simp add: local_objs_def ex_fs_def fun_eq_iff)

lemma ex_cs_inv: "cs_inv (local_objs ex_dir ex_fs) ex_cs ex_fs"
  unfolding ex_no_objs by (auto simp: cs_inv_def seq_inv_def buf_inv_def cache_inv_def cache_ok_def ex_cs_def
      NewChunkStore_def ex_fs_def intro: exI [of _ 0])

lemma ex_no_subdirs: "no_subdirs ex_dir ex_fs"
  by (simp add: no_subdirs_def ex_fs_def ex_dir_def)

lemma ex_runs_ok:
  obtains cs1 s1 fs1 cs2 s2 fs2 r2 cs3 s3 fs3 r3 b s4 fs4 where
    "Append (LocalStore ex_dir) ''abcd'' 0 ex_cs ex_fs ex_fs = (Inr ex_e1, cs1, s1, fs1)"
    "Append (LocalStore ex_dir) ''efgh'' 4 cs1 s1 fs1 = (r2, cs2, s2, fs2)"
    "Append (LocalStore ex_dir) ''ijkl'' 8 cs2 s2 fs2 = (r3, cs3, s3, fs3)"
    "nextSeq cs1 < 2 ^ 63 - 1" "nextSeq cs2 < 2 ^ 63 - 1"
    "Read (LocalStore ex_dir) ''chunk-00000000'' 0 4 cs3 s3 fs3 = (Inr b, s4, fs4)"
    "activeBuf cs3 = ''ijkl''"
proof -
  obtain r1 cs1 s1 fs1 where 1: "ex_run1 = (r1, cs1, s1, fs1)" by (cases ex_run1)
  obtain r2 cs2 s2 fs2 where 2: "ex_run2 = (r2, cs2, s2, fs2)" by (cases ex_run2)
  obtain r3 cs3 s3 fs3 where 3: "ex_run3 = (r3, cs3, s3, fs3)" by (cases ex_run3)
  obtain r4 s4 fs4 where 4: "Read (LocalStore ex_dir) ''chunk-00000000'' 0 4 cs3 s3 fs3 = (r4, s4, fs4)"
    by (cases "Read (LocalStore ex_dir) ''chunk-00000000'' 0 4 cs3 s3 fs3")
  have v: "case ex_run1 of (r, cs, s, fs) \<Rightarrow> r = Inr ex_e1 \<and> nextSeq cs < 2 ^ 63 - 1"
    "case ex_run2 of (r, cs, s, fs) \<Rightarrow> nextSeq cs < 2 ^ 63 - 1"
    "case ex_run3 of (r, cs, s, fs) \<Rightarrow> activeBuf cs = ''ijkl'' \<and>
       \<not> isl (fst (Read (LocalStore ex_dir) ''chunk-00000000'' 0 4 cs s fs))"
    by code_simp+
  have "\<not> isl r4" using v(3) unfolding 3 by (simp add: 4)
  then obtain b where "r4 = Inr b" by (cases r4) auto
  with that 1 2 3 4 v show thesis by (simp add: ex_run1_def ex_run2_def ex_run3_def)
qed

section \<open>Properties\<close>

text \<open>C15. The active chunk never exceeds the maximum size, its identifier is one no object
  of a later sequence number can clash with, what is flushed of it is a prefix of the
  buffer, and the cache holds only whole chunks: the invariant holds in every state
  reachable by calls of the chunk store's methods, whatever the store and the disk fail
  to do.\<close>

theorem chunk_store_reachable_inv:
  assumes "store_contract S objs swf" and "rtranclp (cs_step S) (cs, s, fs) (cs', s', fs')"
    and "swf s" and "cs_inv (objs s) cs fs"
  shows "swf s' \<and> cs_inv (objs s') cs' fs' \<and> int (length (activeBuf cs')) \<le> maxChunkSize cs'"
  using store_contract.cs_steps_safe [OF assms(1,2)] assms(3,4) by (auto simp: cs_inv_def buf_inv_def)

theorem chunk_store_reachable_inv_witness:
  "\<exists>cs s fs. rtranclp (cs_step (LocalStore ex_dir)) (ex_cs, ex_fs, ex_fs) (cs, s, fs)
     \<and> cs_inv (local_objs ex_dir s) cs fs \<and> activeBuf cs = ''ijkl''"
proof (rule ex_runs_ok)
  fix cs1 s1 fs1 cs2 s2 fs2 r2 cs3 s3 fs3 r3
  assume a: "Append (LocalStore ex_dir) ''abcd'' 0 ex_cs ex_fs ex_fs = (Inr ex_e1, cs1, s1, fs1)"
    "Append (LocalStore ex_dir) ''efgh'' 4 cs1 s1 fs1 = (r2, cs2, s2, fs2)"
    "Append (LocalStore ex_dir) ''ijkl'' 8 cs2 s2 fs2 = (r3, cs3, s3, fs3)"
    "nextSeq cs1 < 2 ^ 63 - 1" "nextSeq cs2 < 2 ^ 63 - 1" and b: "activeBuf cs3 = ''ijkl''"
  have "nextSeq ex_cs < 2 ^ 63 - 1" by (simp add: ex_cs_def NewChunkStore_def)
  then have "rtranclp (cs_step (LocalStore ex_dir)) (ex_cs, ex_fs, ex_fs) (cs3, s3, fs3)"
    using a by (meson cs_append rtranclp.rtrancl_refl rtranclp.rtrancl_into_rtrancl)
  with chunk_store_reachable_inv [OF loc.store_contract_axioms this ex_no_subdirs ex_cs_inv] b show ?thesis by blast
qed

text \<open>C16. Appended data can be read back for ever: after a successful \<^verbatim>\<open>Append\<close>, and any
  number of further appends, seals, flushes and reads, a read of the extent that returns
  data returns exactly the appended bytes, from the buffer, the cache or the store.\<close>

theorem append_then_read:
  assumes "store_contract S objs swf" and "swf s" and "cs_inv (objs s) cs fs" and "nextSeq cs < 2 ^ 63 - 1"
    and "Append S d fo cs s fs = (Inr ext, cs1, s1, fs1)" and "d \<noteq> []"
    and "rtranclp (cs_step S) (cs1, s1, fs1) (cs2, s2, fs2)"
    and "Read S (ChunkID ext) (ChunkOffset ext) (Length ext) cs2 s2 fs2 = (Inr b, s3, fs3)"
  shows "b = d \<and> Length ext = int (length d) \<and> FileOffset ext = fo"
proof -
  note A = store_contract.Append_safe [OF assms(1-5)]
  from A(4) obtain c where c: "chunk_view (objs s1) cs1 (ChunkID ext) = Some c" "ext_in ext c" "ext_data ext c = d"
    and l: "Length ext = int (length d)" "FileOffset ext = fo" and a: "ChunkID ext = activeID cs1" by blast
  have id: "object_id (ChunkID ext)" unfolding a by (rule inv_active_id [OF A(2)])
  have st: "swf s2" "cs_inv (objs s2) cs2 fs2" "view_mono (chunk_view (objs s1) cs1) (chunk_view (objs s2) cs2)"
    using store_contract.cs_steps_safe [OF assms(1,7)] A(1,2) by simp_all
  have "c \<noteq> []" using c l assms(6) by (auto simp: ext_data_def byte_slice_def)
  with st(3) c(1) obtain c' where c': "chunk_view (objs s2) cs2 (ChunkID ext) = Some c'" "prefix c c'"
    unfolding view_mono_def by blast
  from ext_mono [OF c(2) c'(2)] have e: "ext_in ext c'" "ext_data ext c' = d" using c(3) by simp_all
  have "b = byte_slice (ChunkOffset ext) (Length ext) c'"
    by (rule store_contract.Read_safe(2) [OF assms(1) st(1,2) id assms(8) refl c'(1)])
      (use e l assms(6) in \<open>simp_all add: ext_in_def\<close>)
  with e l show ?thesis by (simp add: ext_data_def)
qed

theorem append_then_read_witness:
  "\<exists>cs3 s3 fs3 s4 fs4. Read (LocalStore ex_dir) ''chunk-00000000'' 0 4 cs3 s3 fs3 = (Inr ''abcd'', s4, fs4)
     \<and> activeBuf cs3 = ''ijkl''"
proof (rule ex_runs_ok)
  fix cs1 s1 fs1 cs2 s2 fs2 r2 cs3 s3 fs3 r3 b s4 fs4
  assume a: "Append (LocalStore ex_dir) ''abcd'' 0 ex_cs ex_fs ex_fs = (Inr ex_e1, cs1, s1, fs1)"
    and a': "Append (LocalStore ex_dir) ''efgh'' 4 cs1 s1 fs1 = (r2, cs2, s2, fs2)"
    "Append (LocalStore ex_dir) ''ijkl'' 8 cs2 s2 fs2 = (r3, cs3, s3, fs3)"
    "nextSeq cs1 < 2 ^ 63 - 1" "nextSeq cs2 < 2 ^ 63 - 1"
    and r: "Read (LocalStore ex_dir) ''chunk-00000000'' 0 4 cs3 s3 fs3 = (Inr b, s4, fs4)"
    and b: "activeBuf cs3 = ''ijkl''"
  have n: "nextSeq ex_cs < 2 ^ 63 - 1" by (simp add: ex_cs_def NewChunkStore_def)
  have st: "rtranclp (cs_step (LocalStore ex_dir)) (cs1, s1, fs1) (cs3, s3, fs3)"
    using a' by (meson cs_append rtranclp.rtrancl_refl rtranclp.rtrancl_into_rtrancl)
  have "b = ''abcd''"
    using append_then_read [OF loc.store_contract_axioms ex_no_subdirs ex_cs_inv n a _ st, of b s4 fs4] r
    by (simp add: ex_e1_def)
  with r b show ?thesis by blast
qed

text \<open>C17. A successful flush makes everything durable: every non-empty chunk the chunk
  store can serve, the active one included, is in the backing store with the same
  content; and a failed flush or seal loses nothing that could be read before.\<close>

theorem flush_durable:
  assumes "store_contract S objs swf" and "swf s" and "cs_inv (objs s) cs fs"
  shows "(FlushActive S cs s = (Inr (), cs1, s1) \<longrightarrow> chunk_view (objs s) cs i = Some c \<longrightarrow> c \<noteq> [] \<longrightarrow> objs s1 i = Some c)
    \<and> (FlushActive S cs s = (r, cs1, s1) \<longrightarrow> chunk_view (objs s1) cs1 = chunk_view (objs s) cs)
    \<and> (nextSeq cs < 2 ^ 63 - 1 \<longrightarrow> Seal S cs s fs = (q, cs2, s2, fs2) \<longrightarrow>
        view_mono (chunk_view (objs s) cs) (chunk_view (objs s2) cs2))"
proof (intro conjI impI)
  show "objs s1 i = Some c" if "FlushActive S cs s = (Inr (), cs1, s1)" "chunk_view (objs s) cs i = Some c" "c \<noteq> []"
    by (rule store_contract.FlushActive_safe(4) [OF assms that(1) refl that(2,3)])
  show "chunk_view (objs s1) cs1 = chunk_view (objs s) cs" if "FlushActive S cs s = (r, cs1, s1)"
    by (rule store_contract.FlushActive_safe(3) [OF assms that])
  show "view_mono (chunk_view (objs s) cs) (chunk_view (objs s2) cs2)"
    if "nextSeq cs < 2 ^ 63 - 1" "Seal S cs s fs = (q, cs2, s2, fs2)"
    by (rule store_contract.sealLocked_safe(3) [OF assms that(1) that(2) [unfolded Seal_def]])
qed

theorem flush_durable_witness:
  "\<exists>cs1 s1 cs2 s2. FlushActive (LocalStore ex_dir) cs1 s1 = (Inr (), cs2, s2)
     \<and> local_objs ex_dir s2 ''chunk-00000000'' = Some ''abcd''"
proof (rule ex_runs_ok)
  fix cs1 s1 fs1
  assume a: "Append (LocalStore ex_dir) ''abcd'' 0 ex_cs ex_fs ex_fs = (Inr ex_e1, cs1, s1, fs1)"
  have n: "nextSeq ex_cs < 2 ^ 63 - 1" by (simp add: ex_cs_def NewChunkStore_def)
  note A = loc.Append_safe [OF ex_no_subdirs ex_cs_inv n a]
  have f: "case ex_run1 of (r, cs, s, fs) \<Rightarrow> activeID cs = ''chunk-00000000'' \<and> activeBuf cs = ''abcd''
      \<and> fst (FlushActive (LocalStore ex_dir) cs s) = Inr ()" by code_simp
  obtain cs2 s2 where fl: "FlushActive (LocalStore ex_dir) cs1 s1 = (Inr (), cs2, s2)"
    using f a by (cases "FlushActive (LocalStore ex_dir) cs1 s1") (auto simp: ex_run1_def)
  have "chunk_view (local_objs ex_dir s1) cs1 ''chunk-00000000'' = Some ''abcd''"
    using f a by (simp add: ex_run1_def chunk_view_def)
  then have "local_objs ex_dir s2 ''chunk-00000000'' = Some ''abcd''"
    using flush_durable [OF loc.store_contract_axioms A(1,2), of cs2 s2 "''chunk-00000000''" "''abcd''"] fl by simp
  with fl show ?thesis by blast
qed

text \<open>C18. After a restart the chunk store does not reuse an identifier: on a store whose chunk
  numbers are below $10^8$, \<^verbatim>\<open>RecoverNextSeq\<close> establishes the invariant with an active
  identifier that no object has, and changes no object.\<close>

theorem recover_fresh:
  assumes "store_contract S objs swf" and "swf s" and "RecoverNextSeq S (NewChunkStore m) s = (Inr (), cs, s')"
    and "0 \<le> m" and "m < 2 ^ 62" and "\<forall>k \<ge> 0. objs s (chunkID k) \<noteq> None \<longrightarrow> k < 10 ^ 8"
    and "\<forall>i c. objs s i = Some c \<longrightarrow> int (length c) < 2 ^ 63"
  shows "objs s' = objs s \<and> objs s (activeID cs) = None \<and> cs_inv (objs s) cs fs"
  using store_contract.RecoverNextSeq_inv [OF assms(1-5)] assms(6,7) by blast

theorem recover_fresh_witness:
  "\<exists>cs s'. RecoverNextSeq (LocalStore ex_dir) (NewChunkStore 10) ex_fs = (Inr (), cs, s')
     \<and> cs_inv (local_objs ex_dir ex_fs) cs ex_fs"
proof -
  have "fst (RecoverNextSeq (LocalStore ex_dir) (NewChunkStore 10) ex_fs) = Inr ()" by code_simp
  then obtain cs s' where r: "RecoverNextSeq (LocalStore ex_dir) (NewChunkStore 10) ex_fs = (Inr (), cs, s')"
    by (cases "RecoverNextSeq (LocalStore ex_dir) (NewChunkStore 10) ex_fs") auto
  then show ?thesis
    using recover_fresh [OF loc.store_contract_axioms ex_no_subdirs r] by (simp add: ex_no_objs)
qed

end
