(* ===== verification/Compactor_Props.thy ===== *)
theory Compactor_Props
  imports Compactor_Live Chunk_Store_Props Index_Props
begin

text \<open>
  The properties of compaction. The instances compact a store with one half-orphaned chunk.
\<close>

section \<open>A concrete cycle\<close>

definition ex_sealed :: osfs where
  "ex_sealed = \<lparr>files = [([''d'', ''chunk-00000000''], ''abcdefgh'')], dirs = [[], [''d''], [''c'']], dirSize = 0, faults = []\<rparr>"

definition ex_cs1 :: chunk_store where "ex_cs1 = fst (snd (RecoverNextSeq (LocalStore ex_dir) (NewChunkStore 10) ex_sealed))"

definition ex_idx1 :: index where "ex_idx1 = projr (WriteExtent ex2 2 ex_e1 2)"

definition ex_persist :: "osfs persist" where "ex_persist idx cs s fs = (Inr (), MarkClean idx, cs, s, fs)"

definition ex_cycle where
  "ex_cycle t = Compact (LocalStore ex_dir) ex_persist (\<lambda>_. 5) (Fin t) 10 ex_idx1 ex_cs1 ex_sealed ex_fs"

definition ex_live :: "Extent list" where "ex_live = [ex_e1]"

lemma ex_live: "LiveExtents ex_idx1 = ex_live"
  by code_simp

lemma ex_sealed_objs: "local_objs ex_dir ex_sealed = [''chunk-00000000'' \<mapsto> ''abcdefgh'']"
proof -
  have "object_id ''chunk-00000000''" by code_simp
  then show ?thesis by (auto simp: local_objs_def ex_sealed_def ex_dir_def fun_eq_iff)
qed

lemma ex_sealed_good: "local_good ex_dir ex_sealed" "disk_good ex_cs1 ex_fs"
proof -
  have "cache ex_cs1 = None" by code_simp
  then show "disk_good ex_cs1 ex_fs" by (simp add: disk_good_def)
qed (simp add: local_good_def no_subdirs_def ex_sealed_def ex_dir_def)

lemma ex_cs1_inv: "cs_inv (local_objs ex_dir ex_sealed) ex_cs1 ex_fs"
proof -
  have "fst (RecoverNextSeq (LocalStore ex_dir) (NewChunkStore 10) ex_sealed) = Inr ()" by code_simp
  then obtain s where r: "RecoverNextSeq (LocalStore ex_dir) (NewChunkStore 10) ex_sealed = (Inr (), ex_cs1, s)"
    by (cases "RecoverNextSeq (LocalStore ex_dir) (NewChunkStore 10) ex_sealed") (simp add: ex_cs1_def)
  have "k < 10 ^ 8" if "0 \<le> k" "chunkID k = ''chunk-00000000''" for k
  proof -
    have "chunkID 0 = ''chunk-00000000''" by code_simp
    then show ?thesis using chunkID_inj [of k 0] that by simp
  qed
  then have low: "k < 10 ^ 8" if "0 \<le> k" "local_objs ex_dir ex_sealed (chunkID k) \<noteq> None" for k
    using that by (simp add: ex_sealed_objs split: if_splits)
  have "int (length c) < 2 ^ 63" if "local_objs ex_dir ex_sealed i = Some c" for i c
    using that by (auto simp: ex_sealed_objs split: if_splits)
  with low show ?thesis
    using loc.RecoverNextSeq_inv [OF _ r, of ex_fs] ex_sealed_good(1) by (simp add: local_good_def)
qed

lemma ex_readable: "readable (chunk_view (local_objs ex_dir ex_sealed) ex_cs1) (LiveExtents ex_idx1)"
proof -
  have "activeID ex_cs1 \<noteq> ''chunk-00000000''" "object_id ''chunk-00000000''" by code_simp+
  then show ?thesis
    by (simp add: ex_live ex_live_def readable_def chunk_view_def ex_sealed_objs ex_e1_def ext_in_def)
qed

lemma ex_unique: "unique_keys (LiveExtents ex_idx1)"
  by (simp add: ex_live ex_live_def unique_keys_def)

lemma ex_fresh: "fresh_outputs (local_objs ex_dir ex_sealed) (\<lambda>_. 5)"
  by (simp add: fresh_outputs_def ex_sealed_objs compacted_id_def)

lemma ex_listed: "ListIDs (LocalStore ex_dir) ex_sealed = (Inr ids, s) \<Longrightarrow> \<forall>i \<in> set ids. object_id i"
proof -
  assume a: "ListIDs (LocalStore ex_dir) ex_sealed = (Inr ids, s)"
  have "\<forall>i \<in> set (projr (fst (ListIDs (LocalStore ex_dir) ex_sealed))). object_id i" by code_simp
  with a show ?thesis by simp
qed

lemma ex_persist_keeps: "persist_keeps (local_objs dir) (no_subdirs dir) ex_persist"
  by (simp add: persist_keeps_def ex_persist_def MarkClean_def)

lemma ex_cycle_ok: obtains idx cs s fs where "ex_cycle (1 / 2) = (Inr (), idx, cs, s, fs)"
    "local_objs ex_dir s ''compacted-5-0'' = Some ''abcd''"
proof -
  have "case ex_cycle (1 / 2) of (r, idx, cs, s, fs) \<Rightarrow> r = Inr () \<and> local_objs ex_dir s ''compacted-5-0'' = Some ''abcd''"
    by code_simp
  with that show thesis by (cases "ex_cycle (1 / 2)") auto
qed

section \<open>Properties\<close>

text \<open>C19. Compaction never changes the content of a file: whatever step of the cycle fails,
  every byte of every file that could be read from the store through the old index can be
  read through the new one, and conversely, provided extents of different files do not
  start at the same place of a chunk and the identifiers the clock gives are unused.\<close>

theorem compaction_preserves:
  assumes "store_contract S objs swf" and "swf s" and "cs_inv (objs s) cs fs"
    and "readable (chunk_view (objs s) cs) (LiveExtents idx)" and "unique_keys (LiveExtents idx)"
    and "fresh_outputs (objs s) clock"
    and "\<forall>ids s'. ListIDs S s = (Inr ids, s') \<longrightarrow> (\<forall>i \<in> set ids. object_id i)"
    and "persist_keeps objs swf P"
    and "Compact S P clock t sz idx cs s fs = (r, idx', cs', s', fs')"
  shows "file_byte (chunk_view (objs s') cs') idx' i b = file_byte (chunk_view (objs s) cs) idx i b"
  by (rule store_contract.Compact_preserves [OF assms(1-6) _ assms(8,9)]) (use assms(7) in blast)

theorem compaction_preserves_witness:
  "\<exists>idx cs s fs. ex_cycle (1 / 2) = (Inr (), idx, cs, s, fs)
     \<and> file_byte (chunk_view (local_objs ex_dir s) cs) idx 2 3 = Some (CHR ''d'')"
proof (rule ex_cycle_ok)
  fix idx cs s fs assume c: "ex_cycle (1 / 2) = (Inr (), idx, cs, s, fs)"
  have "no_subdirs ex_dir ex_sealed" using ex_sealed_good by (simp add: local_good_def)
  from compaction_preserves [OF loc.store_contract_axioms this ex_cs1_inv ex_readable ex_unique ex_fresh _
      ex_persist_keeps c [unfolded ex_cycle_def], of 2 3] ex_listed
  have "file_byte (chunk_view (local_objs ex_dir s) cs) idx 2 3
      = file_byte (chunk_view (local_objs ex_dir ex_sealed) ex_cs1) ex_idx1 2 3" by blast
  moreover have "file_byte (chunk_view (local_objs ex_dir ex_sealed) ex_cs1) ex_idx1 2 3 = Some (CHR ''d'')" by code_simp
  ultimately show ?thesis using c by simp
qed



text \<open>C21. Compaction respects the chunk size: every object that a cycle adds or changes, the active
  chunk aside, is at most the configured chunk size long, as long as the extents are.\<close>

theorem compacted_chunks_bounded:
  assumes "store_contract S objs swf" and "swf s" and "cs_inv (objs s) cs fs"
    and "readable (chunk_view (objs s) cs) (LiveExtents idx)" and "unique_keys (LiveExtents idx)"
    and "fresh_outputs (objs s) clock"
    and "\<forall>ids s'. ListIDs S s = (Inr ids, s') \<longrightarrow> (\<forall>i \<in> set ids. object_id i)"
    and "persist_keeps objs swf P"
    and "Compact S P clock t sz idx cs s fs = (r, idx', cs', s', fs')"
    and "bounded_exts sz (LiveExtents idx)" and "0 \<le> sz" and "sz < 2 ^ 62"
    and "objs s' i = Some c" and "i \<noteq> activeID cs"
  shows "objs s i = Some c \<or> int (length c) \<le> sz"
  by (rule store_contract.Compact_bounded [OF assms(1-6) _ assms(8-14)]) (use assms(7) in blast)

theorem compacted_chunks_bounded_witness:
  "\<exists>idx cs s fs c. ex_cycle (1 / 2) = (Inr (), idx, cs, s, fs)
     \<and> local_objs ex_dir s ''compacted-5-0'' = Some c \<and> int (length c) \<le> 10"
proof (rule ex_cycle_ok)
  fix idx cs s fs assume c: "ex_cycle (1 / 2) = (Inr (), idx, cs, s, fs)"
    and o: "local_objs ex_dir s ''compacted-5-0'' = Some ''abcd''"
  have n: "no_subdirs ex_dir ex_sealed" using ex_sealed_good by (simp add: local_good_def)
  have bd: "bounded_exts 10 (LiveExtents ex_idx1)" by (simp add: ex_live ex_live_def bounded_exts_def ex_e1_def)
  have sz: "(10 :: int) < 2 ^ 62" by simp
  have a: "''compacted-5-0'' \<noteq> activeID ex_cs1" by code_simp
  have l: "\<forall>ids s'. ListIDs (LocalStore ex_dir) ex_sealed = (Inr ids, s') \<longrightarrow> (\<forall>i \<in> set ids. object_id i)"
    using ex_listed by blast
  have "local_objs ex_dir ex_sealed ''compacted-5-0'' = Some ''abcd'' \<or> int (length ''abcd'') \<le> 10"
    by (rule compacted_chunks_bounded [where objs = "local_objs ex_dir" and s' = s, OF loc.store_contract_axioms n
      ex_cs1_inv ex_readable ex_unique ex_fresh l ex_persist_keeps c [unfolded ex_cycle_def] bd zero_le_numeral sz o a])
  then have "int (length ''abcd'') \<le> 10" by (simp add: ex_sealed_objs)
  with c o show ?thesis by blast
qed

text \<open>C22. On a working store a compaction cycle gets through: it lists, reads, packs, writes and
  deletes without an error, and the only thing that can stop it is the persist function.\<close>

theorem compaction_live:
  assumes "store_live S objs swf good" and "good s" and "cs_inv (objs s) cs fs" and "disk_good cs fs"
    and "readable (chunk_view (objs s) cs) (LiveExtents idx)"
    and "\<forall>e \<in> set (LiveExtents idx). 0 < Length e" and "unique_keys (LiveExtents idx)"
    and "fresh_outputs (objs s) clock"
    and "\<forall>ids s'. ListIDs S s = (Inr ids, s') \<longrightarrow> (\<forall>i \<in> set ids. object_id i)"
    and "persist_good good P"
    and "Compact S P clock t sz idx cs s fs = (r, idx', cs', s', fs')"
  shows "r = Inr () \<or> (\<exists>e. r = Inl (PersistFailed e))"
  by (rule store_live.Compact_live [OF assms(1-8) _ assms(10,11)]) (use assms(9) in blast)

theorem compaction_live_witness:
  "\<exists>r idx cs s fs. ex_cycle (1 / 2) = (r, idx, cs, s, fs) \<and> (r = Inr () \<or> (\<exists>e. r = Inl (PersistFailed e)))"
proof -
  obtain r idx cs s fs where c: "ex_cycle (1 / 2) = (r, idx, cs, s, fs)" by (metis prod_cases5)
  have "\<forall>e \<in> set (LiveExtents ex_idx1). 0 < Length e" by (simp add: ex_live ex_live_def ex_e1_def)
  moreover have "persist_good (local_good ex_dir) ex_persist" by (simp add: persist_good_def ex_persist_def)
  ultimately have "r = Inr () \<or> (\<exists>e. r = Inl (PersistFailed e))"
    using compaction_live [OF loc.store_live_axioms ex_sealed_good(1) ex_cs1_inv ex_sealed_good(2) ex_readable _ ex_unique
      ex_fresh _ _ c [unfolded ex_cycle_def]] ex_listed by blast
  with c show ?thesis by blast
qed

end
