(* ===== verification/Fuse_Types.thy ===== *)
theory Fuse_Types
  imports Compactor_Thm Persist
begin

text \<open>
  The data \<^verbatim>\<open>internal/fuse/fs.go\<close> exchanges with the FUSE library: attributes, the requests
  and replies of the handlers, error numbers, and the state \<^verbatim>\<open>Fusey\<close> all nodes and file
  handles share. The bits of \<^verbatim>\<open>SetAttrIn.Valid\<close> belong to the library and are a parameter.
\<close>

section \<open>Library data\<close>

record Attr =
  A_Ino :: ino
  A_Size :: u64
  A_Blocks :: u64
  A_Atime :: u64
  A_Mtime :: u64
  A_Ctime :: u64
  A_Atimensec :: u32
  A_Mtimensec :: u32
  A_Ctimensec :: u32
  A_Mode :: u32
  A_Nlink :: u32
  A_Uid :: u32
  A_Gid :: u32
  A_Rdev :: u32
  A_Blksize :: u32

record SetAttrIn =
  S_Valid :: u32
  S_Mode :: u32
  S_Uid :: u32
  S_Gid :: u32
  S_Size :: u64
  S_Atime :: u64
  S_Atimensec :: u32
  S_Mtime :: u64
  S_Mtimensec :: u32

record fattr_bits =
  FATTR_MODE :: u32
  FATTR_UID :: u32
  FATTR_GID :: u32
  FATTR_SIZE :: u32
  FATTR_ATIME :: u32
  FATTR_MTIME :: u32

text \<open>An entry reply: the attributes, their time-to-live, and the number and type of the inode
  that is registered with the library.\<close>

record EntryOut =
  E_Attr :: Attr
  E_EntryValid :: u64
  E_AttrValid :: u64
  E_Ino :: ino
  E_Type :: u32

record FuseDirEntry =
  D_Mode :: u32
  D_Name :: string
  D_Ino :: ino

record StatfsOut =
  F_Bsize :: u32
  F_Frsize :: u32
  F_Blocks :: u64
  F_Bfree :: u64
  F_Bavail :: u64
  F_Files :: u64
  F_Ffree :: u64
  F_NameLen :: u32

text \<open>The error numbers the handlers return; \<open>GoPanic\<close> marks a run-time panic.\<close>

datatype errno =
  ENOENT | EIO | EEXIST | EINVAL | EPERM | ENOTDIR | ENOTEMPTY | ENOSPC | ENODATA | ERANGE | GoPanic

text \<open>The error a handler returns for an error of the index; a panic of the index is not caught.\<close>

definition as_errno :: "errno \<Rightarrow> ierror \<Rightarrow> errno" where
  "as_errno d e = (if e = IndexPanic then GoPanic else d)"

definition attrTTL :: u64 where "attrTTL = 5"
definition entryTTL :: u64 where "entryTTL = 5"

section \<open>The file system object\<close>

text \<open>The index and the chunk store are pointers in Go; the model holds their values, with the
  states of the backing store and of the local disk beside them. An empty cache directory
  is \<open>None\<close>.\<close>

record 's Fusey =
  f_idx :: index
  f_cs :: chunk_store
  f_store :: 's
  f_disk :: osfs
  maxFSSize :: int
  cacheDir :: "path option"

definition New_fusey :: "index \<Rightarrow> chunk_store \<Rightarrow> 's \<Rightarrow> osfs \<Rightarrow> int \<Rightarrow> path option \<Rightarrow> 's Fusey" where
  "New_fusey idx cs s fs mx dir =
     \<lparr>f_idx = idx, f_cs = cs, f_store = s, f_disk = fs, maxFSSize = mx, cacheDir = dir\<rparr>"

definition Root :: ino where "Root = RootIno"

section \<open>Helpers\<close>

definition fillAttr :: "Inode \<Rightarrow> Attr" where
  "fillAttr n = \<lparr>A_Ino = Ino n, A_Size = word_of_int (Size n), A_Blocks = word_of_int (Blocks n),
     A_Atime = word_of_int (Atime n sdiv 10 ^ 9), A_Mtime = word_of_int (Mtime n sdiv 10 ^ 9),
     A_Ctime = word_of_int (Ctime n sdiv 10 ^ 9), A_Atimensec = word_of_int (Atime n smod 10 ^ 9),
     A_Mtimensec = word_of_int (Mtime n smod 10 ^ 9), A_Ctimensec = word_of_int (Ctime n smod 10 ^ 9),
     A_Mode = FullMode n, A_Nlink = Nlink n, A_Uid = UID n, A_Gid = GID n, A_Rdev = Rdev n,
     A_Blksize = word_of_int (Blksize n)\<rparr>"

definition max64 :: "int \<Rightarrow> int \<Rightarrow> int" where
  "max64 a b = (if b < a then a else b)"

definition min64 :: "int \<Rightarrow> int \<Rightarrow> int" where
  "min64 a b = (if a < b then a else b)"

lemma minmax64 [simp]: "max64 a b = max a b" "min64 a b = min a b"
  by (simp_all add: max64_def min64_def max_def min_def)

text \<open>The text of the errors of \<^verbatim>\<open>RemoveDirEntry\<close>, which \<^verbatim>\<open>Rmdir\<close> searches, and the
  quoting of a name by \<^verbatim>\<open>%q\<close>: quotes and backslashes are escaped, control characters become
  escape sequences, and the bytes of printable runes stand for themselves.\<close>

definition hex_digit :: "nat \<Rightarrow> char" where
  "hex_digit n = char_of (if n < 10 then 48 + n else 87 + n)"

definition quote_char :: "char \<Rightarrow> string" where
  "quote_char c =
     (if c = CHR 0x22 then [CHR 0x5C, CHR 0x22] else if c = CHR 0x5C then [CHR 0x5C, CHR 0x5C]
      else if c = CHR 0x07 then CHR 0x5C # ''a'' else if c = CHR 0x08 then CHR 0x5C # ''b''
      else if c = CHR 0x0C then CHR 0x5C # ''f'' else if c = CHR 0x0A then CHR 0x5C # ''n''
      else if c = CHR 0x0D then CHR 0x5C # ''r'' else if c = CHR 0x09 then CHR 0x5C # ''t''
      else if c = CHR 0x0B then CHR 0x5C # ''v''
      else let n = of_char c :: nat in
        if n < 32 \<or> n = 127 then CHR 0x5C # ''x'' @ [hex_digit (n div 16), hex_digit (n mod 16)] else [c])"

definition fmt_q :: "string \<Rightarrow> string" where
  "fmt_q s = CHR 0x22 # concat (map quote_char s) @ [CHR 0x22]"

definition fmt_ino :: "ino \<Rightarrow> string" where
  "fmt_ino i = fmt_d (uint i)"

definition error_text :: "ierror \<Rightarrow> string" where
  "error_text e =
     (case e of
        ParentNotFound i \<Rightarrow> ''parent inode '' @ fmt_ino i @ '' not found''
      | EntryNotFound nm i \<Rightarrow> ''entry '' @ fmt_q nm @ '' not found in directory '' @ fmt_ino i
      | DirNotEmpty i \<Rightarrow> ''directory '' @ fmt_ino i @ '' is not empty''
      | _ \<Rightarrow> [])"

definition Contains :: "string \<Rightarrow> string \<Rightarrow> bool" where
  "Contains s sub \<longleftrightarrow> list_ex (\<lambda>t. prefix sub t) (suffixes s)"

lemma Contains_iff: "Contains s sub \<longleftrightarrow> sublist sub s"
  by (auto simp: Contains_def list_ex_iff sublist_altdef' Bex_def)

end
