(* ===== verification/Fuse_FS.thy ===== *)
theory Fuse_FS
  imports Fuse_Types
begin

text \<open>
  The handlers of \<^verbatim>\<open>internal/fuse/fs.go\<close>, one definition each, in the order of the source. A
  handler takes the reading of the clock where the source reads it, the caller's
  credentials where it asks for them, and the shared state; it returns an error number or a
  reply, with the new state where it can change it. Handlers that only read return no state.
\<close>

section \<open>Nodes\<close>

definition Getattr :: "ino \<Rightarrow> 's Fusey \<Rightarrow> errno + (Attr \<times> u64)" where
  "Getattr i f =
     (case GetInode (f_idx f) i of
        None \<Rightarrow> Inl ENOENT
      | Some n \<Rightarrow> Inr (fillAttr n, attrTTL))"

definition all_types :: u32 where
  "all_types = Regular OR Directory OR Symlink OR BlockDev OR CharDev OR Fifo OR Socket"

definition given :: "u32 \<Rightarrow> u32 \<Rightarrow> 'a \<Rightarrow> 'a option" where
  "given valid bits x = (if valid AND bits \<noteq> 0 then Some x else None)"

definition join_time :: "u64 \<Rightarrow> u32 \<Rightarrow> int" where
  "join_time secs nsec = i64 (i64 (sint secs * 10 ^ 9) + uint nsec)"

definition Setattr :: "fattr_bits \<Rightarrow> ino \<Rightarrow> SetAttrIn \<Rightarrow> int \<Rightarrow> 's Fusey \<Rightarrow> (errno + (Attr \<times> u64)) \<times> 's Fusey" where
  "Setattr B i req now f =
     (let mode = given (S_Valid req) (FATTR_MODE B) (S_Mode req AND NOT all_types);
          uid = given (S_Valid req) (FATTR_UID B) (S_Uid req);
          gid = given (S_Valid req) (FATTR_GID B) (S_Gid req);
          sz = given (S_Valid req) (FATTR_SIZE B) (sint (S_Size req));
          atime = given (S_Valid req) (FATTR_ATIME B) (join_time (S_Atime req) (S_Atimensec req));
          mtime = given (S_Valid req) (FATTR_MTIME B) (join_time (S_Mtime req) (S_Mtimensec req))
      in case SetAttr (f_idx f) i mode uid gid sz atime mtime now of
           Inl _ \<Rightarrow> (Inl EIO, f)
         | Inr idx \<Rightarrow>
             (case GetInode idx i of
                None \<Rightarrow> (Inl ENOENT, f\<lparr>f_idx := idx\<rparr>)
              | Some n \<Rightarrow> (Inr (fillAttr n, attrTTL), f\<lparr>f_idx := idx\<rparr>)))"

definition entry_reply :: "Inode \<Rightarrow> ino \<Rightarrow> u32 \<Rightarrow> EntryOut" where
  "entry_reply n i ft = \<lparr>E_Attr = fillAttr n, E_EntryValid = entryTTL, E_AttrValid = attrTTL, E_Ino = i, E_Type = ft\<rparr>"

definition Node_Lookup :: "ino \<Rightarrow> string \<Rightarrow> 's Fusey \<Rightarrow> errno + EntryOut" where
  "Node_Lookup i nm f =
     (case Lookup (f_idx f) i nm of
        None \<Rightarrow> Inl ENOENT
      | Some childIno \<Rightarrow>
          (case GetInode (f_idx f) childIno of
             None \<Rightarrow> Inl ENOENT
           | Some n \<Rightarrow> Inr (entry_reply n childIno (FileType n))))"

fun list_children :: "index \<Rightarrow> DirEntry list \<Rightarrow> FuseDirEntry list" where
  "list_children idx [] = []"
| "list_children idx (e # es) =
     (case GetInode idx (ChildIno e) of
        None \<Rightarrow> list_children idx es
      | Some n \<Rightarrow> \<lparr>D_Mode = FileType n, D_Name = Name e, D_Ino = ChildIno e\<rparr> # list_children idx es)"

definition Node_Readdir :: "ino \<Rightarrow> 's Fusey \<Rightarrow> errno + FuseDirEntry list" where
  "Node_Readdir i f =
     (case GetInode (f_idx f) i of
        None \<Rightarrow> Inl ENOENT
      | Some n \<Rightarrow>
          if FileType n \<noteq> Directory then Inl ENOTDIR
          else (case Readdir (f_idx f) i of
                  Inl _ \<Rightarrow> Inl EIO
                | Inr entries \<Rightarrow>
                    Inr ([\<lparr>D_Mode = Directory, D_Name = ''.'', D_Ino = i\<rparr>,
                          \<lparr>D_Mode = Directory, D_Name = ''..'', D_Ino = GetParentIno (f_idx f) i\<rparr>]
                         @ list_children (f_idx f) entries)))"

definition caller_ids :: "(u32 \<times> u32) option \<Rightarrow> u32 \<times> u32" where
  "caller_ids caller = (case caller of None \<Rightarrow> (0, 0) | Some c \<Rightarrow> c)"

text \<open>\<^verbatim>\<open>inode, _ := GetInode(ino)\<close>: the zero inode when there is none.\<close>

definition inode_or_zero :: "index \<Rightarrow> ino \<Rightarrow> Inode" where
  "inode_or_zero idx i = (case GetInode idx i of None \<Rightarrow> zero_inode | Some n \<Rightarrow> n)"

definition Create :: "ino \<Rightarrow> string \<Rightarrow> u32 \<Rightarrow> (u32 \<times> u32) option \<Rightarrow> int \<Rightarrow> 's Fusey \<Rightarrow> (errno + (EntryOut \<times> ino)) \<times> 's Fusey" where
  "Create p nm mode caller now f =
     (let perm = mode AND 0xFFF;
          (uid, gid) = caller_ids caller;
          (i, idx1) = CreateInode (f_idx f) Regular perm uid gid 0 now
      in case AddDirEntry idx1 p nm i now of
           Inl e \<Rightarrow> (Inl (as_errno EEXIST e), f\<lparr>f_idx := idx1\<rparr>)
         | Inr idx2 \<Rightarrow> (Inr (entry_reply (inode_or_zero idx2 i) i Regular, i), f\<lparr>f_idx := idx2\<rparr>))"

definition Mkdir :: "ino \<Rightarrow> string \<Rightarrow> u32 \<Rightarrow> (u32 \<times> u32) option \<Rightarrow> int \<Rightarrow> 's Fusey \<Rightarrow> (errno + EntryOut) \<times> 's Fusey" where
  "Mkdir p nm mode caller now f =
     (let perm = mode AND 0xFFF;
          (uid, gid) = caller_ids caller;
          (i, idx1) = CreateInode (f_idx f) Directory perm uid gid 0 now
      in case AddDirEntry idx1 p nm i now of
           Inl e \<Rightarrow> (Inl (as_errno EEXIST e), f\<lparr>f_idx := idx1\<rparr>)
         | Inr idx2 \<Rightarrow> (Inr (entry_reply (inode_or_zero idx2 i) i Directory), f\<lparr>f_idx := idx2\<rparr>))"

definition Node_Symlink :: "ino \<Rightarrow> string \<Rightarrow> string \<Rightarrow> (u32 \<times> u32) option \<Rightarrow> int \<Rightarrow> 's Fusey \<Rightarrow> (errno + EntryOut) \<times> 's Fusey" where
  "Node_Symlink p target nm caller now f =
     (let (uid, gid) = caller_ids caller;
          (i, idx1) = CreateInode (f_idx f) Symlink 0x1FF uid gid 0 now
      in case AddDirEntry idx1 p nm i now of
           Inl e \<Rightarrow> (Inl (as_errno EEXIST e), f\<lparr>f_idx := idx1\<rparr>)
         | Inr idx2 \<Rightarrow>
             (case SetSymlink idx2 i target now of
                Inl _ \<Rightarrow> (Inl EIO, f\<lparr>f_idx := idx2\<rparr>)
              | Inr idx3 \<Rightarrow> (Inr (entry_reply (inode_or_zero idx3 i) i Symlink), f\<lparr>f_idx := idx3\<rparr>)))"

definition Readlink :: "ino \<Rightarrow> 's Fusey \<Rightarrow> errno + bytes" where
  "Readlink i f = (case GetSymlink (f_idx f) i of None \<Rightarrow> Inl EINVAL | Some target \<Rightarrow> Inr target)"

text \<open>The target of \<^verbatim>\<open>Link\<close> and the new parent of \<^verbatim>\<open>Rename\<close> are \<open>None\<close> when they are not nodes
  of this file system.\<close>

definition Link :: "ino \<Rightarrow> ino option \<Rightarrow> string \<Rightarrow> int \<Rightarrow> 's Fusey \<Rightarrow> (errno + EntryOut) \<times> 's Fusey" where
  "Link p target nm now f =
     (case target of
        None \<Rightarrow> (Inl EINVAL, f)
      | Some t \<Rightarrow>
          (case GetInode (f_idx f) t of
             None \<Rightarrow> (Inl ENOENT, f)
           | Some n \<Rightarrow>
               if FileType n = Directory then (Inl EPERM, f)
               else (case AddDirEntry (f_idx f) p nm t now of
                       Inl e \<Rightarrow> (Inl (as_errno EEXIST e), f)
                     | Inr idx \<Rightarrow>
                         (let n1 = inode_or_zero idx t
                          in (Inr (entry_reply n1 t (FileType n1)), f\<lparr>f_idx := idx\<rparr>)))))"

definition Unlink :: "ino \<Rightarrow> string \<Rightarrow> int \<Rightarrow> 's Fusey \<Rightarrow> (errno + unit) \<times> 's Fusey" where
  "Unlink p nm now f =
     (case RemoveDirEntry (f_idx f) p nm now of
        Inl e \<Rightarrow> (Inl (as_errno ENOENT e), f)
      | Inr idx \<Rightarrow> (Inr (), f\<lparr>f_idx := idx\<rparr>))"

definition Rmdir :: "ino \<Rightarrow> string \<Rightarrow> int \<Rightarrow> 's Fusey \<Rightarrow> (errno + unit) \<times> 's Fusey" where
  "Rmdir p nm now f =
     (case Lookup (f_idx f) p nm of
        None \<Rightarrow> (Inl ENOENT, f)
      | Some childIno \<Rightarrow>
          (case GetInode (f_idx f) childIno of
             None \<Rightarrow> (Inl ENOENT, f)
           | Some n \<Rightarrow>
               if FileType n \<noteq> Directory then (Inl ENOTDIR, f)
               else (case RemoveDirEntry (f_idx f) p nm now of
                       Inl e \<Rightarrow> (Inl (as_errno (if Contains (error_text e) ''not empty'' then ENOTEMPTY else EIO) e), f)
                     | Inr idx \<Rightarrow> (Inr (), f\<lparr>f_idx := idx\<rparr>))))"

definition Node_Rename :: "ino \<Rightarrow> string \<Rightarrow> ino option \<Rightarrow> string \<Rightarrow> u32 \<Rightarrow> int \<Rightarrow> 's Fusey \<Rightarrow> (errno + unit) \<times> 's Fusey" where
  "Node_Rename p nm newParent newName flags now f =
     (case newParent of
        None \<Rightarrow> (Inl EINVAL, f)
      | Some q \<Rightarrow>
          (case Rename (f_idx f) p nm q newName now of
             Inl e \<Rightarrow> (Inl (as_errno EIO e), f)
           | Inr idx \<Rightarrow> (Inr (), f\<lparr>f_idx := idx\<rparr>)))"

definition Open :: "ino \<Rightarrow> u32 \<Rightarrow> 's Fusey \<Rightarrow> errno + ino" where
  "Open i flags f = (case GetInode (f_idx f) i of None \<Rightarrow> Inl ENOENT | Some _ \<Rightarrow> Inr i)"

definition Statfs :: "'s Fusey \<Rightarrow> errno + StatfsOut" where
  "Statfs f =
     (let used = UsedBytes (f_idx f);
          tot = maxFSSize f;
          free0 = i64 (tot - used);
          free = (if free0 < 0 then 0 else free0);
          bsize = word_of_int (BlockSz (f_idx f)) :: u64
      in if bsize = 0 then Inl GoPanic
         else let bfree = word_of_int free div bsize;
                  nfiles = word_of_int tot div 4096
              in Inr \<lparr>F_Bsize = ucast bsize, F_Frsize = ucast bsize, F_Blocks = word_of_int tot div bsize,
                      F_Bfree = bfree, F_Bavail = bfree, F_Files = nfiles, F_Ffree = nfiles, F_NameLen = 255\<rparr>)"

text \<open>A reply that fills the caller's buffer \<open>dest\<close> of the given length: a length and the bytes copied.\<close>

definition fill_dest :: "nat \<Rightarrow> bytes \<Rightarrow> errno + (u32 \<times> bytes)" where
  "fill_dest dest v =
     (if dest = 0 then Inr (of_nat (length v), [])
      else if dest < length v then Inl ERANGE
      else Inr (of_nat (length v), v))"

definition Getxattr :: "ino \<Rightarrow> string \<Rightarrow> nat \<Rightarrow> 's Fusey \<Rightarrow> errno + (u32 \<times> bytes)" where
  "Getxattr i attr dest f =
     (case map_of (GetXattrs (f_idx f) i) attr of
        None \<Rightarrow> Inl ENODATA
      | Some v \<Rightarrow> fill_dest dest v)"

definition Setxattr :: "ino \<Rightarrow> string \<Rightarrow> bytes \<Rightarrow> u32 \<Rightarrow> int \<Rightarrow> 's Fusey \<Rightarrow> (errno + unit) \<times> 's Fusey" where
  "Setxattr i attr data flags now f =
     (case SetXattr (f_idx f) i attr data now of
        Inl _ \<Rightarrow> (Inl EIO, f)
      | Inr idx \<Rightarrow> (Inr (), f\<lparr>f_idx := idx\<rparr>))"

definition Listxattr :: "ino \<Rightarrow> nat \<Rightarrow> 's Fusey \<Rightarrow> errno + (u32 \<times> bytes)" where
  "Listxattr i dest f = fill_dest dest (concat (map (\<lambda>(k, v). k @ [zero_byte]) (GetXattrs (f_idx f) i)))"

definition Removexattr :: "ino \<Rightarrow> string \<Rightarrow> int \<Rightarrow> 's Fusey \<Rightarrow> (errno + unit) \<times> 's Fusey" where
  "Removexattr i attr now f =
     (case RemoveXattr (f_idx f) i attr now of
        Inl _ \<Rightarrow> (Inl ENODATA, f)
      | Inr idx \<Rightarrow> (Inr (), f\<lparr>f_idx := idx\<rparr>))"

section \<open>File handles\<close>

text \<open>The loop of \<^verbatim>\<open>FileHandle.Read\<close> over the extents; \<open>buf\<close> is the buffer being filled. A slice
  expression out of range panics.\<close>

fun read_loop ::
  "'s Store \<Rightarrow> chunk_store \<Rightarrow> int \<Rightarrow> int \<Rightarrow> Extent list \<Rightarrow> bytes \<Rightarrow> 's \<Rightarrow> osfs \<Rightarrow> (errno + bytes) \<times> 's \<times> osfs" where
  "read_loop S cs off end [] buf s fs = (Inr buf, s, fs)"
| "read_loop S cs off end (e # es) buf s fs =
     (let eEnd = i64 (FileOffset e + Length e)
      in if eEnd \<le> off \<or> end \<le> FileOffset e then read_loop S cs off end es buf s fs
         else
           let readStart = max64 off (FileOffset e);
               readEnd = min64 end eEnd;
               chunkOffset = i64 (ChunkOffset e + i64 (readStart - FileOffset e))
           in case Read S (ChunkID e) chunkOffset (i64 (readEnd - readStart)) cs s fs of
                (Inl _, s1, fs1) \<Rightarrow> (Inl EIO, s1, fs1)
              | (Inr data, s1, fs1) \<Rightarrow>
                  let k = i64 (readStart - off)
                  in if k < 0 \<or> int (length buf) < k then (Inl GoPanic, s1, fs1)
                     else read_loop S cs off end es (copy_at k data buf) s1 fs1)"

definition FileHandle_Read ::
  "'s Store \<Rightarrow> ino \<Rightarrow> nat \<Rightarrow> int \<Rightarrow> int \<Rightarrow> 's Fusey \<Rightarrow> (errno + bytes) \<times> 's Fusey" where
  "FileHandle_Read S i dest off now f =
     (case GetInode (f_idx f) i of
        None \<Rightarrow> (Inl ENOENT, f)
      | Some n \<Rightarrow>
          if Size n \<le> off then (Inr [], f)
          else
            let end0 = i64 (off + int dest);
                end = (if Size n < end0 then Size n else end0);
                need = i64 (end - off)
            in case GetExtents (f_idx f) i of
                 None \<Rightarrow> (Inr [], f)
               | Some exts \<Rightarrow>
                   if need < 0 then (Inl GoPanic, f)
                   else (case read_loop S (f_cs f) off end exts (replicate (nat need) zero_byte) (f_store f) (f_disk f) of
                           (Inl e, s1, fs1) \<Rightarrow> (Inl e, f\<lparr>f_store := s1, f_disk := fs1\<rparr>)
                         | (Inr buf, s1, fs1) \<Rightarrow>
                             (Inr buf, f\<lparr>f_idx := TouchAtime (f_idx f) i now, f_store := s1, f_disk := fs1\<rparr>)))"

definition FileHandle_Write ::
  "'s Store \<Rightarrow> ino \<Rightarrow> bytes \<Rightarrow> int \<Rightarrow> int \<Rightarrow> 's Fusey \<Rightarrow> (errno + u32) \<times> 's Fusey" where
  "FileHandle_Write S i data off now f =
     (case GetInode (f_idx f) i of
        None \<Rightarrow> (Inl ENOENT, f)
      | Some n \<Rightarrow>
          let newEnd = i64 (off + int (length data))
          in if Size n < newEnd \<and> maxFSSize f < i64 (UsedBytes (f_idx f) + i64 (newEnd - Size n))
             then (Inl ENOSPC, f)
             else (case Append S data off (f_cs f) (f_store f) (f_disk f) of
                     (Inl _, cs1, s1, fs1) \<Rightarrow> (Inl EIO, f\<lparr>f_cs := cs1, f_store := s1, f_disk := fs1\<rparr>)
                   | (Inr ext, cs1, s1, fs1) \<Rightarrow>
                       (case WriteExtent (f_idx f) i ext now of
                          Inl _ \<Rightarrow> (Inl EIO, f\<lparr>f_cs := cs1, f_store := s1, f_disk := fs1\<rparr>)
                        | Inr idx1 \<Rightarrow> (Inr (of_nat (length data)),
                            f\<lparr>f_idx := idx1, f_cs := cs1, f_store := s1, f_disk := fs1\<rparr>))))"

definition Flush :: "errno + unit" where "Flush = Inr ()"

definition Fsync :: "'s Store \<Rightarrow> encoder \<Rightarrow> 's Fusey \<Rightarrow> (errno + unit) \<times> 's Fusey" where
  "Fsync S enc f =
     (case FlushActive S (f_cs f) (f_store f) of
        (Inl _, cs1, s1) \<Rightarrow> (Inl EIO, f\<lparr>f_cs := cs1, f_store := s1\<rparr>)
      | (Inr _, cs1, s1) \<Rightarrow>
          (case cacheDir f of
             None \<Rightarrow> (Inr (), f\<lparr>f_cs := cs1, f_store := s1\<rparr>)
           | Some dir \<Rightarrow>
               (case Save enc (f_idx f) dir (f_disk f) of
                  (Inl _, idx1, fs1) \<Rightarrow> (Inl EIO, f\<lparr>f_cs := cs1, f_store := s1, f_idx := idx1, f_disk := fs1\<rparr>)
                | (Inr _, idx1, fs1) \<Rightarrow> (Inr (), f\<lparr>f_cs := cs1, f_store := s1, f_idx := idx1, f_disk := fs1\<rparr>))))"

end
