(* ===== verification/Extent_Space.thy ===== *)
theory Extent_Space
  imports Compactor_Thm
begin

text \<open>
  Who owns which bytes of the chunks. An occurrence is an extent of a file, or an extent
  that a write has appended and not yet entered in the index. Occurrences never share
  bytes: truncation and overwriting only carve pieces out of extents, and \<^verbatim>\<open>Append\<close> hands
  out fresh bytes.
\<close>

section \<open>Pieces of extents\<close>

definition part_of :: "Extent \<Rightarrow> Extent \<Rightarrow> bool" where
  "part_of x e \<longleftrightarrow> ChunkID x = ChunkID e \<and> ChunkOffset e \<le> ChunkOffset x
     \<and> ChunkOffset x + Length x \<le> ChunkOffset e + Length e \<and> (0 < Length e \<longrightarrow> 0 < Length x)"

definition cdisj :: "Extent \<Rightarrow> Extent \<Rightarrow> bool" where
  "cdisj a b \<longleftrightarrow> ChunkID a \<noteq> ChunkID b \<or> ChunkOffset a + Length a \<le> ChunkOffset b
     \<or> ChunkOffset b + Length b \<le> ChunkOffset a"

lemma part_of_refl [simp]: "part_of e e"
  by (simp add: part_of_def)

lemma cdisj_parts: "cdisj a b \<Longrightarrow> part_of x a \<Longrightarrow> part_of y b \<Longrightarrow> cdisj x y"
  by (auto simp: cdisj_def part_of_def)

lemma cdisj_sym: "cdisj a b \<longleftrightarrow> cdisj b a"
  by (auto simp: cdisj_def)

type_synonym occ = "ino option \<times> Extent"

definition separate :: "occ set \<Rightarrow> bool" where
  "separate Q \<longleftrightarrow> (\<forall>x \<in> Q. \<forall>y \<in> Q. x \<noteq> y \<longrightarrow> cdisj (snd x) (snd y))"

lemma separate_carve:
  assumes s: "separate Q" and X: "X \<subseteq> (\<Union>q \<in> Q. f q)"
    and p: "\<And>q x. q \<in> Q \<Longrightarrow> x \<in> f q \<Longrightarrow> part_of (snd x) (snd q)" and f: "\<And>q. q \<in> Q \<Longrightarrow> separate (f q)"
  shows "separate X"
  unfolding separate_def
proof (intro ballI impI)
  fix x y assume "x \<in> X" "y \<in> X" and ne: "x \<noteq> y"
  with X obtain a b where q: "a \<in> Q" "x \<in> f a" "b \<in> Q" "y \<in> f b" by blast
  show "cdisj (snd x) (snd y)"
  proof (cases "a = b")
    case True
    then show ?thesis using f [OF q(1)] q ne by (simp add: separate_def)
  next
    case False
    then have "cdisj (snd a) (snd b)" using s q by (simp add: separate_def)
    then show ?thesis using p q by (blast intro: cdisj_parts)
  qed
qed

lemma separate_insert:
  "separate Q \<Longrightarrow> (\<And>q. q \<in> Q \<Longrightarrow> cdisj (snd q) (snd x)) \<Longrightarrow> separate (insert x Q)"
  using cdisj_sym [THEN iffD1] by (auto simp: separate_def)

lemma separate_subset: "separate Q \<Longrightarrow> X \<subseteq> Q \<Longrightarrow> separate X"
  unfolding separate_def by blast

subsection \<open>Truncation\<close>

lemma trim_loop_concat: "trim_loop n es = concat (map (\<lambda>e. trim_loop n [e]) es)"
  by (induction es) auto

lemma trim_part:
  assumes "ext_ok e" and "0 \<le> n" and "n < 2 ^ 63" and "x \<in> set (trim_loop n [e])"
  shows "part_of x e"
  using assms by (auto simp: part_of_def ext_ok_def i64_simps split: if_splits)

lemma trim_single: "x \<in> set (trim_loop n [e]) \<Longrightarrow> y \<in> set (trim_loop n [e]) \<Longrightarrow> x = y"
  by (auto split: if_splits)

subsection \<open>Overwriting\<close>

lemma write_part:
  assumes "ext_ok ext" and "ext_ok e" and "x \<in> set (write_pieces ext e)"
  shows "part_of x e"
  using assms by (auto simp: write_pieces_eq ext_ok_def overlap_def piece_defs part_of_def split: if_splits)

lemma write_pieces_cdisj:
  assumes "ext_ok ext" and "ext_ok e" and "x \<in> set (write_pieces ext e)" and "y \<in> set (write_pieces ext e)" and "x \<noteq> y"
  shows "cdisj x y"
  using assms by (auto simp: write_pieces_eq ext_ok_def overlap_def piece_defs cdisj_def split: if_splits)

lemma write_pieces_idem:
  assumes "ext_ok ext" and "ext_ok e" and "x \<in> set (write_pieces ext e)"
  shows "write_pieces ext x = [x]"
  using write_pieces_disjoint(2) [OF assms] write_pieces_ok(1) [OF assms] assms(1)
  by (simp add: write_pieces_eq)

text \<open>Whatever the in-place loop reads, an original extent or a piece it wrote over it, what it
  keeps are pieces of original extents.\<close>

lemma write_run_pieces:
  assumes ok: "ext_ok ext" "\<forall>e \<in> set exts. ext_ok e" and "n \<le> length exts"
  shows "set (snd (write_run ext exts n)) \<subseteq> (\<Union>e \<in> set exts. set (write_pieces ext e))
    \<and> set (fst (write_run ext exts n)) \<subseteq> set exts \<union> (\<Union>e \<in> set exts. set (write_pieces ext e))
    \<and> length (fst (write_run ext exts n)) = length exts"
  using assms(3)
proof (induction n)
  case 0
  then show ?case by simp
next
  case (Suc n)
  let ?W = "write_run ext exts n" let ?U = "\<Union>e \<in> set exts. set (write_pieces ext e)"
  have IH: "set (snd ?W) \<subseteq> ?U" "set (fst ?W) \<subseteq> set exts \<union> ?U" "length (fst ?W) = length exts"
    using Suc by simp_all
  have "fst ?W ! n \<in> set (fst ?W)" using Suc.prems IH(3) by simp
  then have "fst ?W ! n \<in> set exts \<or> (\<exists>e \<in> set exts. fst ?W ! n \<in> set (write_pieces ext e))" using IH(2) by blast
  then have new: "set (write_pieces ext (fst ?W ! n)) \<subseteq> ?U"
  proof
    assume "\<exists>e \<in> set exts. fst ?W ! n \<in> set (write_pieces ext e)"
    then obtain e where e: "e \<in> set exts" "fst ?W ! n \<in> set (write_pieces ext e)" ..
    then have "write_pieces ext (fst ?W ! n) = [fst ?W ! n]" using ok by (intro write_pieces_idem) auto
    then show ?thesis using e by auto
  qed blast
  have "length (fst (foldl push st xs)) = length (fst st)" for st xs
    by (induction xs arbitrary: st) (auto simp: split: prod.splits)
  then show ?case
    using IH new foldl_push_set [of ?W "write_pieces ext (fst ?W ! n)"]
    by (auto simp: write_run_Suc write_step_def snd_foldl_push)
qed

lemma write_extents_pieces:
  assumes "ext_ok ext" and "\<forall>e \<in> set exts. ext_ok e" and "x \<in> set (write_extents ext exts)"
  shows "x = ext \<or> (\<exists>e \<in> set exts. x \<in> set (write_pieces ext e))"
  using write_run_pieces [OF assms(1,2) order_refl] assms(3) by (auto simp: write_extents_def)

section \<open>Occurrences\<close>

definition occs :: "index \<Rightarrow> Extent set \<Rightarrow> occ set" where
  "occs idx P = {(Some i, e) |i e. e \<in> set (file_extents idx i)} \<union> {(None, e) |e. e \<in> P}"

lemma occs_iff [simp]:
  "(Some i, e) \<in> occs idx P \<longleftrightarrow> e \<in> set (file_extents idx i)" "(None, e) \<in> occs idx P \<longleftrightarrow> e \<in> P"
  by (auto simp: occs_def)

lemma live_file:
  assumes "index_inv idx" and "e \<in> set (LiveExtents idx)"
  obtains i where "e \<in> set (file_extents idx i)"
proof -
  from assms(2) obtain i es where "(i, es) \<in> set (extents idx)" "e \<in> set es" by (auto simp: LiveExtents_def)
  moreover have "keys_ok (extents idx)" using assms(1) by (simp add: index_inv_def wf_keys_def)
  ultimately have "e \<in> set (file_extents idx i)" by (simp add: file_extents_def keys_ok_map_of_iff [symmetric])
  then show thesis by (rule that)
qed

lemma meta_step_extents:
  assumes "meta_step idx idx'"
  shows "file_extents idx' i = file_extents idx i \<or> file_extents idx' i = []
    \<or> (\<exists>n. 0 \<le> n \<and> n < 2 ^ 63 \<and> file_extents idx' i = trim_loop n (file_extents idx i))"
proof -
  have drop: "file_extents (drop_inode c idx) i = (if i = c then [] else file_extents idx i)" for c idx
    by (simp add: file_extents_def drop_inode_def)
  have mod: "file_extents (modify_inode j g idx) = file_extents idx" for j g idx
    by (simp add: modify_inode_def split: option.splits)
  have ch: "file_extents (set_children p cs idx) = file_extents idx" for p cs idx
    by (simp add: file_extents_def fun_eq_iff)
  note frame = drop mod ch
  from assms show ?thesis
  proof cases
    case step_create
    then show ?thesis
      by (auto simp: CreateInode_def Let_def frame) (auto simp: file_extents_def put_inode_def split: if_splits)
  next
    case step_add
    then show ?thesis by (auto simp: AddDirEntry_def frame split: option.splits if_splits)
  next
    case step_remove
    then show ?thesis by (auto simp: RemoveDirEntry_def Let_def frame split: option.splits if_splits)
  next
    case (step_rename sp sn dp dn now)
    from Rename_ok_dst [OF step_rename(1)] obtain idx1 where u: "rename_unlink_dst idx dp dn = Inr idx1" ..
    have "file_extents idx' i = file_extents idx1 i"
      using step_rename(1) by (auto simp: Rename_def u Let_def frame split: option.splits if_splits)
    with u show ?thesis by (cases rule: rename_dst_cases) (auto simp: frame)
  next
    case (step_setattr j mode uid gid sz atime mtime now)
    then obtain n where n: "GetInode idx j = Some n" by (cases "GetInode idx j") (simp_all add: SetAttr_eq)
    show ?thesis
    proof (cases sz)
      case None
      then show ?thesis using step_setattr n by (auto simp: SetAttr_eq Let_def)
    next
      case (Some k)
      then have "file_extents idx' i = (if k \<noteq> Size n \<and> FileType n = Regular \<and> i = j
          then trim_loop k (file_extents idx i) else file_extents idx i)"
        using step_setattr(1) n by (auto simp: SetAttr_eq Let_def trimExtents_def)
      then show ?thesis using step_setattr(2) [OF Some] by auto
    qed
  next
    case step_symlink
    then show ?thesis by (auto simp: SetSymlink_def split: option.splits if_splits) (simp add: file_extents_def)
  next
    case step_setxattr
    then show ?thesis by (auto simp: SetXattr_def split: option.splits if_splits) (simp add: file_extents_def)
  next
    case step_removexattr
    then show ?thesis by (auto simp: RemoveXattr_def split: option.splits if_splits) (simp add: file_extents_def)
  next
    case step_atime
    then show ?thesis by (simp add: TouchAtime_def split: option.splits) (simp add: file_extents_def)
  next
    case step_clean
    then show ?thesis by (simp add: MarkClean_def file_extents_def)
  next
    case step_remote_clean
    then show ?thesis by (simp add: MarkRemoteClean_def file_extents_def)
  qed
qed

text \<open>The pieces that a step leaves of an occurrence.\<close>

lemma meta_step_carve:
  assumes m: "meta_step idx idx'" and inv: "index_inv idx" and s: "separate (occs idx P)"
  shows "separate (occs idx' P)" and "\<forall>q \<in> occs idx' P. \<exists>q' \<in> occs idx P. part_of (snd q) (snd q')"
proof -
  have "\<exists>h. (\<forall>x \<in> set (file_extents idx' i). \<exists>e \<in> set (file_extents idx i). x \<in> h e)
      \<and> (\<forall>e. ext_ok e \<longrightarrow> (\<forall>x \<in> h e. part_of x e)) \<and> (\<forall>e. \<forall>x \<in> h e. \<forall>y \<in> h e. x = y)" for i
    using meta_step_extents [OF m, of i]
  proof (elim disjE exE conjE)
    fix n assume n: "0 \<le> n" "n < 2 ^ 63" "file_extents idx' i = trim_loop n (file_extents idx i)"
    have "set (trim_loop n es) \<subseteq> (\<Union>e \<in> set es. set (trim_loop n [e]))" for es
      by (subst trim_loop_concat) auto
    then have "\<forall>x \<in> set (file_extents idx' i). \<exists>e \<in> set (file_extents idx i). x \<in> set (trim_loop n [e])"
      unfolding n(3) by blast
    with trim_part [OF _ n(1,2)] trim_single [of _ n] show ?thesis
      by (intro exI [of _ "\<lambda>e. set (trim_loop n [e])"]) blast
  qed (auto intro: exI [of _ "\<lambda>e. {e}"])
  then obtain h where h: "\<And>i x. x \<in> set (file_extents idx' i) \<Longrightarrow> \<exists>e \<in> set (file_extents idx i). x \<in> h i e"
    "\<And>i e x. ext_ok e \<Longrightarrow> x \<in> h i e \<Longrightarrow> part_of x e" "\<And>i e x y. x \<in> h i e \<Longrightarrow> y \<in> h i e \<Longrightarrow> x = y"
    by metis
  define f where "f q = (case q of (Some i, e) \<Rightarrow> {(Some i, x) |x. x \<in> h i e} | (None, e) \<Rightarrow> {(None, e)})" for q :: occ
  have X: "occs idx' P \<subseteq> (\<Union>q \<in> occs idx P. f q)"
  proof
    fix q assume q: "q \<in> occs idx' P"
    obtain w x where wx: "q = (w, x)" by force
    show "q \<in> (\<Union>q \<in> occs idx P. f q)"
    proof (cases w)
      case None
      then have "q \<in> occs idx P" "q \<in> f q" using q wx by (simp_all add: f_def)
      then show ?thesis by blast
    next
      case (Some i)
      then obtain e where "e \<in> set (file_extents idx i)" "x \<in> h i e" using q wx h(1) [of x i] by auto
      then have "(Some i, e) \<in> occs idx P" "q \<in> f (Some i, e)" using Some wx by (simp_all add: f_def)
      then show ?thesis by blast
    qed
  qed
  have p: "part_of (snd x) (snd q)" if "q \<in> occs idx P" "x \<in> f q" for q x
    using that h(2) inv_exts_ok [OF inv] by (cases q; cases "fst q") (auto simp: f_def)
  have u: "separate (f q)" for q
    using h(3) by (cases q; cases "fst q") (auto simp: f_def separate_def)
  show "separate (occs idx' P)" by (rule separate_carve [OF s X p u])
  show "\<forall>q \<in> occs idx' P. \<exists>q' \<in> occs idx P. part_of (snd q) (snd q')" using X p by blast
qed

lemma write_carve:
  assumes wr: "WriteExtent idx i ext now = Inr idx'" and inv: "index_inv idx" and ok: "ext_ok ext"
    and s: "separate (occs idx P)" and ext: "ext \<in> P"
  shows "separate (occs idx' (P - {ext}))" and "\<forall>q \<in> occs idx' (P - {ext}). \<exists>q' \<in> occs idx P. part_of (snd q) (snd q')"
proof -
  have fe: "file_extents idx' j = (if j = i then write_extents ext (file_extents idx i) else file_extents idx j)" for j
    using wr ok by (rule WriteExtent_cases) simp
  note eo = inv_exts_ok [OF inv]
  define f where "f q = (case q of (Some j, e) \<Rightarrow> if j = i then {(Some j, x) |x. x \<in> set (write_pieces ext e)} else {q}
      | (None, e) \<Rightarrow> if e = ext then {(Some i, ext)} else {q})" for q :: occ
  have X: "occs idx' (P - {ext}) \<subseteq> (\<Union>q \<in> occs idx P. f q)"
  proof
    fix q assume q: "q \<in> occs idx' (P - {ext})"
    obtain w x where ox: "q = (w, x)" by force
    consider (pend) "w = None" | (other) j where "w = Some j" "j \<noteq> i" | (same) "w = Some i" by (cases w) auto
    then show "q \<in> (\<Union>q \<in> occs idx P. f q)"
    proof cases
      case pend
      then have "q \<in> occs idx P" "q \<in> f q" using q ox by (auto simp: f_def)
      then show ?thesis by blast
    next
      case other
      then have "q \<in> occs idx P" "q \<in> f q" using q ox by (simp_all add: f_def fe)
      then show ?thesis by blast
    next
      case same
      then have "x = ext \<or> (\<exists>e \<in> set (file_extents idx i). x \<in> set (write_pieces ext e))"
        using q ox write_extents_pieces [OF ok _, of "file_extents idx i" x] eo by (auto simp: fe)
      then show ?thesis
      proof
        assume "x = ext"
        then have "(None, ext) \<in> occs idx P" "q \<in> f (None, ext)" using ext ox same by (simp_all add: f_def)
        then show ?thesis by blast
      next
        assume "\<exists>e \<in> set (file_extents idx i). x \<in> set (write_pieces ext e)"
        then obtain e where "(Some i, e) \<in> occs idx P" "q \<in> f (Some i, e)" using ox same by (auto simp: f_def)
        then show ?thesis by blast
      qed
    qed
  qed
  have p: "part_of (snd x) (snd q)" if "q \<in> occs idx P" "x \<in> f q" for q x
    using that write_part [OF ok] eo by (cases q; cases "fst q") (auto simp: f_def split: if_splits)
  have u: "separate (f q)" if "q \<in> occs idx P" for q
    using that by (cases q; cases "fst q") (auto simp: f_def separate_def intro: write_pieces_cdisj [OF ok eo])
  show "separate (occs idx' (P - {ext}))" by (rule separate_carve [OF s X p u])
  show "\<forall>q \<in> occs idx' (P - {ext}). \<exists>q' \<in> occs idx P. part_of (snd q) (snd q')" using X p by blast
qed

section \<open>Bytes that are there\<close>

definition held :: "objects \<Rightarrow> Extent \<Rightarrow> bool" where
  "held V e \<longleftrightarrow> object_id (ChunkID e) \<and> 0 < Length e \<and> (\<exists>c. V (ChunkID e) = Some c \<and> ext_in e c)"

lemma held_part: "held V e \<Longrightarrow> part_of x e \<Longrightarrow> held V x"
  by (auto simp: held_def part_of_def ext_in_def)

lemma held_mono: "held V e \<Longrightarrow> view_mono V V' \<Longrightarrow> held V' e"
proof -
  assume h: "held V e" and m: "view_mono V V'"
  then obtain c where c: "V (ChunkID e) = Some c" "ext_in e c" "0 < Length e" by (auto simp: held_def)
  then have "c \<noteq> []" by (auto simp: ext_in_def)
  with m c obtain c' where "V' (ChunkID e) = Some c'" "prefix c c'" unfolding view_mono_def by blast
  with h c ext_mono show ?thesis unfolding held_def by blast
qed

definition owned :: "objects \<Rightarrow> index \<Rightarrow> Extent set \<Rightarrow> bool" where
  "owned V idx P \<longleftrightarrow> separate (occs idx P) \<and> (\<forall>q \<in> occs idx P. held V (snd q)) \<and> (\<forall>e \<in> P. ext_ok e)"

lemma owned_file: "owned V idx P \<Longrightarrow> e \<in> set (file_extents idx i) \<Longrightarrow> held V e"
  unfolding owned_def using occs_iff(1) by fastforce

lemma owned_compactable:
  assumes inv: "index_inv idx" and o: "owned V idx P"
  shows "readable V (LiveExtents idx)" and "unique_keys (LiveExtents idx)"
proof -
  show "readable V (LiveExtents idx)"
    unfolding readable_def
  proof
    fix e assume "e \<in> set (LiveExtents idx)"
    then obtain i where "e \<in> set (file_extents idx i)" by (rule live_file [OF inv])
    from owned_file [OF o this] show "object_id (ChunkID e) \<and> (0 < Length e \<longrightarrow> (\<exists>c. V (ChunkID e) = Some c \<and> ext_in e c))"
      by (simp add: held_def)
  qed
  show "unique_keys (LiveExtents idx)"
    unfolding unique_keys_def
  proof (intro ballI impI)
    fix a b assume ab: "a \<in> set (LiveExtents idx)" "b \<in> set (LiveExtents idx)" and k: "ext_key a = ext_key b"
    obtain i j where i: "a \<in> set (file_extents idx i)" and j: "b \<in> set (file_extents idx j)"
      using ab live_file [OF inv] by metis
    then have "(Some i, a) \<in> occs idx P" "(Some j, b) \<in> occs idx P" by simp_all
    then have "(Some i, a) = (Some j, b) \<or> cdisj a b" using o unfolding owned_def separate_def by fastforce
    moreover have "0 < Length a" "0 < Length b" using owned_file [OF o] i j by (auto simp: held_def)
    ultimately show "a = b" using k by (auto simp: cdisj_def ext_key_def)
  qed
qed

lemma owned_meta:
  assumes "owned V idx P" and "index_inv idx" and "meta_step idx idx'"
  shows "owned V idx' P"
  using assms meta_step_carve [OF assms(3,2), of P] unfolding owned_def by (blast intro: held_part)

lemma owned_write:
  assumes "owned V idx P" and "index_inv idx" and "WriteExtent idx i ext now = Inr idx'" and "ext \<in> P"
  shows "owned V idx' (P - {ext})"
  using assms write_carve [OF assms(3,2), of P] unfolding owned_def by (blast intro: held_part)

lemma owned_mono: "owned V idx P \<Longrightarrow> view_mono V V' \<Longrightarrow> owned V' idx P"
  unfolding owned_def using held_mono by blast

lemma owned_drop: "owned V idx P \<Longrightarrow> owned V idx (P - X)"
proof -
  assume o: "owned V idx P"
  have "occs idx (P - X) \<subseteq> occs idx P" by (auto simp: occs_def)
  with o show ?thesis unfolding owned_def using separate_subset by blast
qed

section \<open>Fresh bytes\<close>

context store_contract
begin

lemma Append_fresh:
  assumes inv: "cs_inv (objs s) cs fs" and e: "Append S d fo cs s fs = (Inr ext, cs', s', fs')"
    and c: "chunk_view (objs s) cs (ChunkID ext) = Some c"
  shows "int (length c) \<le> ChunkOffset ext"
proof -
  from e obtain cs1 s1 fs1 where r: "(if maxChunkSize cs < i64 (int (length (activeBuf cs)) + int (length d))
           then sealLocked S cs s fs else (Inr (), cs, s, fs)) = (Inr (), cs1, s1, fs1)"
    and x: "ChunkID ext = activeID cs1" "ChunkOffset ext = int (length (activeBuf cs1))"
    by (auto simp: Append_def append_active_def split: if_splits prod.splits sum.splits)
  have "cs1 = cs \<or> activeID cs1 = chunkID (nextSeq cs)"
    using r by (auto simp: sealLocked_def Let_def split: if_splits prod.splits sum.splits)
  then show ?thesis
  proof
    assume "cs1 = cs"
    then show ?thesis using c x by (simp add: chunk_view_def)
  next
    assume a: "activeID cs1 = chunkID (nextSeq cs)"
    from inv obtain k where k: "0 \<le> k" "k < nextSeq cs" "activeID cs = chunkID k"
      and n: "objs s (chunkID (nextSeq cs)) = None" by (auto simp: cs_inv_def seq_inv_def)
    then have "chunkID (nextSeq cs) \<noteq> activeID cs" using chunkID_inj [of "nextSeq cs" k] by simp
    then show ?thesis using c x a n by (simp add: chunk_view_def)
  qed
qed

lemma owned_append:
  assumes w: "swf s" and inv: "cs_inv (objs s) cs fs" and n: "nextSeq cs < 2 ^ 63 - 1"
    and e: "Append S d fo cs s fs = (Inr ext, cs', s', fs')" and d: "d \<noteq> []"
    and fo: "0 \<le> fo" "fo + int (length d) < 2 ^ 63"
    and o: "owned (chunk_view (objs s) cs) idx P"
  shows "owned (chunk_view (objs s') cs') idx (insert ext P)" and "ext_ok ext" and "ext \<notin> P"
proof -
  note A = Append_safe [OF w inv n e]
  from A(4) obtain c where c: "chunk_view (objs s') cs' (ChunkID ext) = Some c" "ext_in ext c"
    and l: "Length ext = int (length d)" "FileOffset ext = fo" "ChunkID ext = activeID cs'" by blast
  have id: "object_id (ChunkID ext)" unfolding l(3) by (rule inv_active_id [OF A(2)])
  show ok: "ext_ok ext" using c(2) l fo cs_inv_len [OF A(2) c(1)] by (simp add: ext_ok_def ext_in_def)
  have h: "held (chunk_view (objs s') cs') ext" using c l d id by (auto simp: held_def)
  have fr: "cdisj x ext" if "held (chunk_view (objs s) cs) x" for x
  proof (cases "ChunkID x = ChunkID ext")
    case True
    with that obtain c where "chunk_view (objs s) cs (ChunkID ext) = Some c" "ext_in x c" by (auto simp: held_def)
    with Append_fresh [OF inv e] show ?thesis by (fastforce simp: cdisj_def ext_in_def)
  qed (simp add: cdisj_def)
  have "\<not> cdisj ext ext" using l d by (simp add: cdisj_def)
  moreover have "held (chunk_view (objs s) cs) x" if "x \<in> P" for x
    using o that occs_iff(2) [of x idx P] unfolding owned_def by fastforce
  ultimately show "ext \<notin> P" using fr by blast
  have "separate (insert (None, ext) (occs idx P))"
    using o fr unfolding owned_def by (intro separate_insert) auto
  moreover have "insert (None, ext) (occs idx P) = occs idx (insert ext P)" by (auto simp: occs_def)
  ultimately have sep: "separate (occs idx (insert ext P))" by simp
  have "owned (chunk_view (objs s') cs') idx P" by (rule owned_mono [OF o A(3)])
  with sep h ok show "owned (chunk_view (objs s') cs') idx (insert ext P)"
    unfolding owned_def by (auto simp: occs_def)
qed

end

end
