(* ===== verification/Fuse_Sys.thy ===== *)
theory Fuse_Sys
  imports Fuse_FS Extent_Space
begin

text \<open>
  The running file system as a transition system. The library calls the handlers from
  many goroutines; the locks of the index and of the chunk store make each of their methods
  atomic, so a step of the system is one such call. A write is two steps, and the
  extents that are appended and not yet in the index are the second component of the state.
  The invariant holds in every interleaving, and a handler that runs alone is a sequence of
  steps.
\<close>

section \<open>Steps\<close>

type_synonym 's sys = "'s Fusey \<times> Extent set"

inductive sys_step :: "'s Store \<Rightarrow> encoder \<Rightarrow> 's sys \<Rightarrow> 's sys \<Rightarrow> bool" for S enc where
  s_meta: "meta_step (f_idx f) idx' \<Longrightarrow> sys_step S enc (f, P) (f\<lparr>f_idx := idx'\<rparr>, P)"
| s_append: "Append S d off (f_cs f) (f_store f) (f_disk f) = (Inr ext, cs', s', fs') \<Longrightarrow>
    d \<noteq> [] \<Longrightarrow> 0 \<le> off \<Longrightarrow> off + int (length d) < 2 ^ 63 \<Longrightarrow> nextSeq (f_cs f) < 2 ^ 63 - 1 \<Longrightarrow>
    sys_step S enc (f, P) (f\<lparr>f_cs := cs', f_store := s', f_disk := fs'\<rparr>, insert ext P)"
| s_append_fail: "Append S d off (f_cs f) (f_store f) (f_disk f) = (Inl e, cs', s', fs') \<Longrightarrow>
    nextSeq (f_cs f) < 2 ^ 63 - 1 \<Longrightarrow> sys_step S enc (f, P) (f\<lparr>f_cs := cs', f_store := s', f_disk := fs'\<rparr>, P)"
| s_write: "ext \<in> P \<Longrightarrow> WriteExtent (f_idx f) i ext now = Inr idx' \<Longrightarrow>
    sys_step S enc (f, P) (f\<lparr>f_idx := idx'\<rparr>, P - {ext})"
| s_abandon: "sys_step S enc (f, P) (f, P - {ext})"
| s_read: "object_id i \<Longrightarrow> Read S i off n (f_cs f) (f_store f) (f_disk f) = (r, s', fs') \<Longrightarrow>
    sys_step S enc (f, P) (f\<lparr>f_store := s', f_disk := fs'\<rparr>, P)"
| s_seal: "Seal S (f_cs f) (f_store f) (f_disk f) = (r, cs', s', fs') \<Longrightarrow> nextSeq (f_cs f) < 2 ^ 63 - 1 \<Longrightarrow>
    sys_step S enc (f, P) (f\<lparr>f_cs := cs', f_store := s', f_disk := fs'\<rparr>, P)"
| s_flush: "FlushActive S (f_cs f) (f_store f) = (r, cs', s') \<Longrightarrow>
    sys_step S enc (f, P) (f\<lparr>f_cs := cs', f_store := s'\<rparr>, P)"
| s_save: "cacheDir f = Some dir \<Longrightarrow> Save enc (f_idx f) dir (f_disk f) = (r, idx', fs') \<Longrightarrow>
    sys_step S enc (f, P) (f\<lparr>f_idx := idx', f_disk := fs'\<rparr>, P)"

inductive_cases sys_stepE: "sys_step S enc st st'"

section \<open>Invariant\<close>

definition apart :: "'s Fusey \<Rightarrow> bool" where
  "apart f \<longleftrightarrow> (\<forall>dir. cacheDir f = Some dir \<longrightarrow> cache (f_cs f) \<noteq> Some dir)"

definition fview :: "('s \<Rightarrow> objects) \<Rightarrow> 's Fusey \<Rightarrow> objects" where
  "fview objs f = chunk_view (objs (f_store f)) (f_cs f)"

definition sys_inv :: "('s \<Rightarrow> objects) \<Rightarrow> ('s \<Rightarrow> bool) \<Rightarrow> 's sys \<Rightarrow> bool" where
  "sys_inv objs swf st = (case st of (f, P) \<Rightarrow> swf (f_store f) \<and> cs_inv (objs (f_store f)) (f_cs f) (f_disk f)
     \<and> index_inv (f_idx f) \<and> owned (fview objs f) (f_idx f) P \<and> apart f)"

lemma cs_inv_files:
  assumes "cs_inv Os cs fs" and "\<And>dir j. cache cs = Some dir \<Longrightarrow> map_of (files fs') (dir @ [j]) = map_of (files fs) (dir @ [j])"
  shows "cs_inv Os cs fs'"
  using assms by (auto simp: cs_inv_def cache_inv_def cache_ok_def)

lemma sealLocked_cache: "sealLocked S cs s fs = (r, cs', s', fs') \<Longrightarrow> cache cs' = cache cs"
  by (auto simp: sealLocked_def Let_def split: if_splits prod.splits sum.splits)

lemma Append_cache: "Append S d off cs s fs = (r, cs', s', fs') \<Longrightarrow> cache cs' = cache cs"
  by (auto simp: Append_def append_active_def split: if_splits prod.splits sum.splits dest: sealLocked_cache)

lemma FlushActive_cache: "FlushActive S cs s = (r, cs', s') \<Longrightarrow> cache cs' = cache cs"
  by (auto simp: FlushActive_def split: if_splits prod.splits sum.splits)

context store_contract
begin

lemma sys_step_inv:
  assumes st: "sys_step S enc st st'" and inv: "sys_inv objs swf st"
  shows "sys_inv objs swf st' \<and> view_mono (fview objs (fst st)) (fview objs (fst st'))"
  using st
proof cases
  case (s_meta f idx' P)
  then show ?thesis using inv meta_step_inv owned_meta by (auto simp: sys_inv_def apart_def fview_def)
next
  case (s_append d off f ext cs' s' fs' P)
  have i: "swf (f_store f)" "cs_inv (objs (f_store f)) (f_cs f) (f_disk f)" "index_inv (f_idx f)"
    "owned (chunk_view (objs (f_store f)) (f_cs f)) (f_idx f) P" "apart f"
    using inv s_append(1) by (simp_all add: sys_inv_def fview_def)
  note A = Append_safe [OF i(1,2) s_append(7,3)] and W = owned_append [OF i(1,2) s_append(7,3,4,5,6) i(4)]
  show ?thesis using A(1-3) W(1) i Append_cache [OF s_append(3)] s_append(1,2) by (simp add: sys_inv_def apart_def fview_def)
next
  case (s_append_fail d off f e cs' s' fs' P)
  have i: "swf (f_store f)" "cs_inv (objs (f_store f)) (f_cs f) (f_disk f)" "index_inv (f_idx f)"
    "owned (chunk_view (objs (f_store f)) (f_cs f)) (f_idx f) P" "apart f"
    using inv s_append_fail(1) by (simp_all add: sys_inv_def fview_def)
  note A = Append_safe [OF i(1,2) s_append_fail(4,3)]
  show ?thesis using A(1-3) owned_mono [OF i(4) A(3)] i Append_cache [OF s_append_fail(3)] s_append_fail(1,2)
    by (simp add: sys_inv_def apart_def fview_def)
next
  case (s_write ext P f i now idx')
  have "ext_ok ext" using inv s_write by (simp add: sys_inv_def owned_def)
  then show ?thesis using inv s_write WriteExtent_inv owned_write by (auto simp: sys_inv_def apart_def fview_def)
next
  case (s_abandon f P ext)
  then show ?thesis using inv owned_drop by (auto simp: sys_inv_def)
next
  case (s_read i off n f r s' fs' P)
  then have "swf s' \<and> objs s' = objs (f_store f) \<and> cs_inv (objs (f_store f)) (f_cs f) fs'"
    using inv by (intro Read_safe(1) [OF _ _ s_read(3,4)]) (simp_all add: sys_inv_def)
  then show ?thesis using inv s_read by (simp add: sys_inv_def apart_def fview_def)
next
  case (s_seal f r cs' s' fs' P)
  have i: "swf (f_store f)" "cs_inv (objs (f_store f)) (f_cs f) (f_disk f)" "index_inv (f_idx f)"
    "owned (chunk_view (objs (f_store f)) (f_cs f)) (f_idx f) P" "apart f"
    using inv s_seal(1) by (simp_all add: sys_inv_def fview_def)
  note Q = sealLocked_safe [OF i(1,2) s_seal(4) s_seal(3) [unfolded Seal_def]]
  show ?thesis using Q(1-3) owned_mono [OF i(4) Q(3)] i sealLocked_cache [OF s_seal(3) [unfolded Seal_def]] s_seal(1,2)
    by (simp add: sys_inv_def apart_def fview_def)
next
  case (s_flush f r cs' s' P)
  have i: "swf (f_store f)" "cs_inv (objs (f_store f)) (f_cs f) (f_disk f)" "index_inv (f_idx f)"
    "owned (chunk_view (objs (f_store f)) (f_cs f)) (f_idx f) P" "apart f"
    using inv s_flush(1) by (simp_all add: sys_inv_def fview_def)
  note F = FlushActive_safe [OF i(1,2) s_flush(3)]
  show ?thesis using F(1-3) i FlushActive_cache [OF s_flush(3)] s_flush(1,2) by (simp add: sys_inv_def apart_def fview_def)
next
  case (s_save f dir r idx' fs' P)
  have e: "idx' = f_idx f \<or> idx' = MarkClean (f_idx f)" using Save_cases [OF s_save(4)] by blast
  have "index_inv idx'" using e inv s_save(1) by (auto simp: sys_inv_def)
  moreover have "owned V idx' P" if "owned V (f_idx f) P" for V
    using e that inv s_save(1) owned_meta [OF that _ step_clean] by (auto simp: sys_inv_def)
  moreover have "cs_inv (objs (f_store f)) (f_cs f) fs'"
  proof (rule cs_inv_files)
    show "cs_inv (objs (f_store f)) (f_cs f) (f_disk f)" using inv s_save(1) by (simp add: sys_inv_def)
    show "map_of (files fs') (c @ [j]) = map_of (files (f_disk f)) (c @ [j])" if "cache (f_cs f) = Some c" for c j
      using inv s_save(1,3) that by (intro Save_other_files [OF s_save(4)]) (auto simp: sys_inv_def apart_def)
  qed
  ultimately show ?thesis using inv s_save(1,2) by (simp add: sys_inv_def apart_def fview_def)
qed

lemma sys_steps_inv:
  "rtranclp (sys_step S enc) st st' \<Longrightarrow> sys_inv objs swf st \<Longrightarrow>
   sys_inv objs swf st' \<and> view_mono (fview objs (fst st)) (fview objs (fst st'))"
  by (induction rule: rtranclp_induct) (auto dest: sys_step_inv intro: view_mono_trans)

end

section \<open>Handlers are runs\<close>

abbreviation sys_run :: "'s Store \<Rightarrow> encoder \<Rightarrow> 's sys \<Rightarrow> 's sys \<Rightarrow> bool" where
  "sys_run S enc \<equiv> rtranclp (sys_step S enc)"

lemma run_meta: "meta_step (f_idx f) idx' \<Longrightarrow> sys_run S enc (f, P) (f\<lparr>f_idx := idx'\<rparr>, P)"
  by (rule r_into_rtranclp) (rule s_meta)

lemma run_meta2:
  assumes "meta_step (f_idx f) idx1" and "meta_step idx1 idx2"
  shows "sys_run S enc (f, P) (f\<lparr>f_idx := idx2\<rparr>, P)"
  using run_meta [OF assms(1), of S enc P] run_meta [of "f\<lparr>f_idx := idx1\<rparr>" idx2 S enc P] assms(2) by simp

lemma run_refl: "f\<lparr>f_idx := f_idx f\<rparr> = f"
  by simp

lemma CreateInode_steps:
  assumes inv: "index_inv idx" and c: "CreateInode idx ft mode uid gid rdev now = (i, idx1)" and n: "nextIno idx \<noteq> - 1"
    and a: "AddDirEntry idx1 p nm i now = Inr idx2"
  shows "meta_step idx idx1" and "meta_step idx1 idx2"
proof -
  show "meta_step idx idx1" by (rule step_create [OF n c])
  have i: "i = nextIno idx" using c by (simp add: CreateInode_def Let_def)
  have "RootIno < nextIno idx" using inv by (auto simp: index_inv_def wf_inodes_def)
  then have "i \<noteq> RootIno" using i by auto
  moreover have "Nlink m \<noteq> - 1" if "GetInode idx1 i = Some m" for m
    using that c by (auto simp: CreateInode_def Let_def fresh_inode_def zero_inode_def GetInode_def put_inode_def
        set_children_def mark_dirty_def split: if_splits)
  ultimately show "meta_step idx1 idx2" using a by (intro step_add)
qed

text \<open>One call of a handler that can change the state. The guards are those of the steps: counters
  have not wrapped, offsets and sizes are in range, no write is empty, and a rename does not
  replace a file by itself.\<close>

inductive fs_step :: "'s Store \<Rightarrow> fattr_bits \<Rightarrow> encoder \<Rightarrow> 's Fusey \<Rightarrow> 's Fusey \<Rightarrow> bool" for S B enc where
  h_setattr: "Setattr B i req now f = (r, f') \<Longrightarrow> (S_Valid req AND FATTR_SIZE B \<noteq> 0 \<longrightarrow> 0 \<le> sint (S_Size req)) \<Longrightarrow>
    fs_step S B enc f f'"
| h_create: "Create p nm mode caller now f = (rc, f') \<Longrightarrow> nextIno (f_idx f) \<noteq> - 1 \<Longrightarrow> fs_step S B enc f f'"
| h_mkdir: "Mkdir p nm mode caller now f = (re, f') \<Longrightarrow> nextIno (f_idx f) \<noteq> - 1 \<Longrightarrow> fs_step S B enc f f'"
| h_symlink: "Node_Symlink p target nm caller now f = (re, f') \<Longrightarrow> nextIno (f_idx f) \<noteq> - 1 \<Longrightarrow> fs_step S B enc f f'"
| h_link: "Link p t nm now f = (re, f') \<Longrightarrow> (\<forall>i n. t = Some i \<longrightarrow> GetInode (f_idx f) i = Some n \<longrightarrow> Nlink n \<noteq> - 1) \<Longrightarrow>
    fs_step S B enc f f'"
| h_unlink: "Unlink p nm now f = (ru, f') \<Longrightarrow> fs_step S B enc f f'"
| h_rmdir: "Rmdir p nm now f = (ru, f') \<Longrightarrow> fs_step S B enc f f'"
| h_rename: "Node_Rename p nm q newName flags now f = (ru, f') \<Longrightarrow>
    (\<forall>j. q = Some j \<longrightarrow> Lookup (f_idx f) j newName \<noteq> Lookup (f_idx f) p nm) \<Longrightarrow> fs_step S B enc f f'"
| h_setxattr: "Setxattr i attr data flags now f = (ru, f') \<Longrightarrow> fs_step S B enc f f'"
| h_removexattr: "Removexattr i attr now f = (ru, f') \<Longrightarrow> fs_step S B enc f f'"
| h_read: "FileHandle_Read S i dest off now f = (rb, f') \<Longrightarrow> fs_step S B enc f f'"
| h_write: "FileHandle_Write S i data off now f = (rw, f') \<Longrightarrow> data \<noteq> [] \<Longrightarrow> 0 \<le> off \<Longrightarrow>
    off + int (length data) < 2 ^ 63 \<Longrightarrow> nextSeq (f_cs f) < 2 ^ 63 - 1 \<Longrightarrow> fs_step S B enc f f'"
| h_fsync: "Fsync S enc f = (ru, f') \<Longrightarrow> fs_step S B enc f f'"

lemma Setattr_runs:
  assumes "Setattr B i req now f = (r, f')" and sz: "S_Valid req AND FATTR_SIZE B \<noteq> 0 \<longrightarrow> 0 \<le> sint (S_Size req)"
  shows "f' = f \<or> (\<exists>idx'. meta_step (f_idx f) idx' \<and> f' = f\<lparr>f_idx := idx'\<rparr>)"
proof -
  define z where "z = given (S_Valid req) (FATTR_SIZE B) (sint (S_Size req))"
  have z: "0 \<le> s \<and> s < 2 ^ 63" if "z = Some s" for s
    using that sz sint_lt [of "S_Size req"] by (auto simp: z_def given_def split: if_splits)
  define R where "R = SetAttr (f_idx f) i (given (S_Valid req) (FATTR_MODE B) (S_Mode req AND NOT all_types))
    (given (S_Valid req) (FATTR_UID B) (S_Uid req)) (given (S_Valid req) (FATTR_GID B) (S_Gid req)) z
    (given (S_Valid req) (FATTR_ATIME B) (join_time (S_Atime req) (S_Atimensec req)))
    (given (S_Valid req) (FATTR_MTIME B) (join_time (S_Mtime req) (S_Mtimensec req))) now"
  have "f' = f \<or> (\<exists>idx'. R = Inr idx' \<and> f' = f\<lparr>f_idx := idx'\<rparr>)"
    using assms(1) by (auto simp: Setattr_def Let_def z_def [symmetric] R_def [symmetric] split: sum.splits option.splits)
  moreover have "meta_step (f_idx f) idx'" if "R = Inr idx'" for idx'
    using that z unfolding R_def by (rule step_setattr)
  ultimately show ?thesis by blast
qed

lemma read_loop_runs:
  "read_loop S (f_cs f) off end es buf s fs = (r, s', fs') \<Longrightarrow> \<forall>e \<in> set es. object_id (ChunkID e) \<Longrightarrow>
   sys_run S enc (f\<lparr>f_store := s, f_disk := fs\<rparr>, P) (f\<lparr>f_store := s', f_disk := fs'\<rparr>, P)"
proof (induction es arbitrary: buf s fs)
  case Nil
  then show ?case by simp
next
  case (Cons e es)
  let ?eEnd = "i64 (FileOffset e + Length e)" let ?rs = "max64 off (FileOffset e)"
  show ?case
  proof (cases "?eEnd \<le> off \<or> end \<le> FileOffset e")
    case True
    then show ?thesis using Cons.prems by (intro Cons.IH) (simp_all add: Let_def)
  next
    case False
    obtain r1 s1 fs1 where rd: "Read S (ChunkID e) (i64 (ChunkOffset e + i64 (?rs - FileOffset e)))
        (i64 (min64 end ?eEnd - ?rs)) (f_cs f) s fs = (r1, s1, fs1)" by (metis prod_cases3)
    have "sys_step S enc (f\<lparr>f_store := s, f_disk := fs\<rparr>, P)
        ((f\<lparr>f_store := s, f_disk := fs\<rparr>)\<lparr>f_store := s1, f_disk := fs1\<rparr>, P)"
      by (rule s_read) (use Cons.prems(2) rd in simp_all)
    then have st: "sys_step S enc (f\<lparr>f_store := s, f_disk := fs\<rparr>, P) (f\<lparr>f_store := s1, f_disk := fs1\<rparr>, P)" by simp
    have "(s', fs') = (s1, fs1) \<or> (\<exists>buf'. read_loop S (f_cs f) off end es buf' s1 fs1 = (r, s', fs'))"
      using Cons.prems(1) False rd by (auto simp: Let_def split: sum.splits if_splits)
    then show ?thesis
    proof
      assume "(s', fs') = (s1, fs1)"
      then show ?thesis using st by auto
    next
      assume "\<exists>buf'. read_loop S (f_cs f) off end es buf' s1 fs1 = (r, s', fs')"
      then have "sys_run S enc (f\<lparr>f_store := s1, f_disk := fs1\<rparr>, P) (f\<lparr>f_store := s', f_disk := fs'\<rparr>, P)"
        using Cons by auto
      with st show ?thesis by (rule converse_rtranclp_into_rtranclp)
    qed
  qed
qed

lemma Read_runs:
  assumes rd: "FileHandle_Read S i dest off now f = (r, f')"
    and ids: "\<forall>e \<in> set (file_extents (f_idx f) i). object_id (ChunkID e)"
  shows "sys_run S enc (f, P) (f', P)"
proof -
  from rd consider "f' = f"
    | exts buf fin r1 s1 fs1 where "GetExtents (f_idx f) i = Some exts"
      "read_loop S (f_cs f) off fin exts buf (f_store f) (f_disk f) = (r1, s1, fs1)"
      "f' = f\<lparr>f_store := s1, f_disk := fs1\<rparr> \<or> f' = f\<lparr>f_idx := TouchAtime (f_idx f) i now, f_store := s1, f_disk := fs1\<rparr>"
    by (auto simp: FileHandle_Read_def Let_def split: option.splits if_splits prod.splits sum.splits)
  then show ?thesis
  proof cases
    case 2
    then have e: "exts = file_extents (f_idx f) i" by (simp add: GetExtents_def file_extents_def)
    have "sys_run S enc (f\<lparr>f_store := f_store f, f_disk := f_disk f\<rparr>, P) (f\<lparr>f_store := s1, f_disk := fs1\<rparr>, P)"
      using ids e by (intro read_loop_runs [OF 2(2)]) simp
    then have 1: "sys_run S enc (f, P) (f\<lparr>f_store := s1, f_disk := fs1\<rparr>, P)" by simp
    have "sys_step S enc (f\<lparr>f_store := s1, f_disk := fs1\<rparr>, P)
        ((f\<lparr>f_store := s1, f_disk := fs1\<rparr>)\<lparr>f_idx := TouchAtime (f_idx f) i now\<rparr>, P)"
      using s_meta [of "f\<lparr>f_store := s1, f_disk := fs1\<rparr>"] step_atime by simp
    moreover have "f\<lparr>f_store := s1, f_disk := fs1, f_idx := TouchAtime (f_idx f) i now\<rparr>
        = f\<lparr>f_idx := TouchAtime (f_idx f) i now, f_store := s1, f_disk := fs1\<rparr>" by (rule Fusey.equality) simp_all
    ultimately have "sys_run S enc (f, P) (f\<lparr>f_idx := TouchAtime (f_idx f) i now, f_store := s1, f_disk := fs1\<rparr>, P)"
      using rtranclp.rtrancl_into_rtrancl [OF 1] by simp
    with 1 2(3) show ?thesis by auto
  qed simp
qed

lemma create_runs:
  assumes "index_inv (f_idx f)" and "nextIno (f_idx f) \<noteq> - 1"
    and "CreateInode (f_idx f) ft mode uid gid 0 now = (i, idx1)"
  shows "sys_run S enc (f, P) (f\<lparr>f_idx := idx1\<rparr>, P)"
    and "AddDirEntry idx1 p nm i now = Inr idx2 \<Longrightarrow> sys_run S enc (f, P) (f\<lparr>f_idx := idx2\<rparr>, P)"
proof -
  show "sys_run S enc (f, P) (f\<lparr>f_idx := idx1\<rparr>, P)" by (rule run_meta) (rule step_create [OF assms(2,3)])
  show "sys_run S enc (f, P) (f\<lparr>f_idx := idx2\<rparr>, P)" if "AddDirEntry idx1 p nm i now = Inr idx2"
    by (rule run_meta2) (rule CreateInode_steps [OF assms(1,3,2) that])+
qed

lemma Node_Symlink_runs:
  assumes h: "Node_Symlink p target nm caller now f = (r, f')" and inv: "index_inv (f_idx f)" and n: "nextIno (f_idx f) \<noteq> - 1"
  shows "sys_run S enc (f, P) (f', P)"
proof -
  obtain uid gid where u: "caller_ids caller = (uid, gid)" by force
  obtain i idx1 where c: "CreateInode (f_idx f) Symlink 0x1FF uid gid 0 now = (i, idx1)" by force
  note R = create_runs [OF inv n c, where P = P and S = S and enc = enc]
  show ?thesis
  proof (cases "AddDirEntry idx1 p nm i now")
    case (Inl e)
    then have "f' = f\<lparr>f_idx := idx1\<rparr>" using h u c by (simp add: Node_Symlink_def)
    then show ?thesis using R(1) by simp
  next
    case (Inr idx2)
    note R2 = R(2) [OF Inr]
    show ?thesis
    proof (cases "SetSymlink idx2 i target now")
      case (Inl e)
      then have "f' = f\<lparr>f_idx := idx2\<rparr>" using h u c Inr by (simp add: Node_Symlink_def)
      then show ?thesis using R2 by simp
    next
      case s: (Inr idx3)
      then have f': "f' = (f\<lparr>f_idx := idx2\<rparr>)\<lparr>f_idx := idx3\<rparr>" using h u c Inr by (simp add: Node_Symlink_def)
      have "sys_step S enc (f\<lparr>f_idx := idx2\<rparr>, P) ((f\<lparr>f_idx := idx2\<rparr>)\<lparr>f_idx := idx3\<rparr>, P)"
        by (rule s_meta) (use step_symlink [OF s] in simp)
      with R2 f' show ?thesis by (simp add: rtranclp.rtrancl_into_rtrancl)
    qed
  qed
qed

lemma Link_runs:
  assumes h: "Link p t nm now f = (r, f')" and inv: "index_inv (f_idx f)"
    and n: "\<forall>i n. t = Some i \<longrightarrow> GetInode (f_idx f) i = Some n \<longrightarrow> Nlink n \<noteq> - 1"
  shows "sys_run S enc (f, P) (f', P)"
proof -
  have "f' = f \<or> (\<exists>i m idx'. t = Some i \<and> GetInode (f_idx f) i = Some m \<and> FileType m \<noteq> Directory
      \<and> AddDirEntry (f_idx f) p nm i now = Inr idx' \<and> f' = f\<lparr>f_idx := idx'\<rparr>)"
    using h by (auto simp: Link_def Let_def split: option.splits if_splits sum.splits)
  then show ?thesis
  proof (elim disjE exE conjE)
    fix i m idx' assume 2: "t = Some i" "GetInode (f_idx f) i = Some m" "FileType m \<noteq> Directory"
      "AddDirEntry (f_idx f) p nm i now = Inr idx'" "f' = f\<lparr>f_idx := idx'\<rparr>"
    have "i \<noteq> RootIno" using inv 2(2,3) by (auto simp: index_inv_def wf_inodes_def GetInode_def)
    then have "meta_step (f_idx f) idx'" using step_add [OF 2(4)] n 2(1) by blast
    then show ?thesis unfolding 2(5) by (rule run_meta)
  qed simp
qed

lemma Fsync_runs:
  assumes "Fsync S enc f = (r, f')"
  shows "sys_run S enc (f, P) (f', P)"
proof -
  obtain r1 cs1 s1 where fl: "FlushActive S (f_cs f) (f_store f) = (r1, cs1, s1)" by (metis prod_cases3)
  have 1: "sys_step S enc (f, P) (f\<lparr>f_cs := cs1, f_store := s1\<rparr>, P)" by (rule s_flush [OF fl])
  show ?thesis
  proof (cases "isl r1 \<or> cacheDir f = None")
    case True
    then have "f' = f\<lparr>f_cs := cs1, f_store := s1\<rparr>" using assms fl by (auto simp: Fsync_def split: sum.splits)
    then show ?thesis using 1 by auto
  next
    case False
    then obtain dir where d: "cacheDir f = Some dir" by auto
    obtain r2 idx1 fs1 where sv: "Save enc (f_idx f) dir (f_disk f) = (r2, idx1, fs1)" by (metis prod_cases3)
    have f': "f' = f\<lparr>f_cs := cs1, f_store := s1, f_idx := idx1, f_disk := fs1\<rparr>"
      using assms fl d sv False by (auto simp: Fsync_def split: sum.splits)
    let ?g = "f\<lparr>f_cs := cs1, f_store := s1\<rparr>"
    have "sys_step S enc (?g, P) (?g\<lparr>f_idx := idx1, f_disk := fs1\<rparr>, P)"
      by (rule s_save) (use d sv in simp_all)
    with 1 f' show ?thesis by (simp add: rtranclp.rtrancl_into_rtrancl [OF r_into_rtranclp])
  qed
qed

context store_contract
begin

lemma Write_runs:
  assumes h: "FileHandle_Write S i data off now f = (r, f')" and inv: "sys_inv objs swf (f, P)"
    and d: "data \<noteq> []" "0 \<le> off" "off + int (length data) < 2 ^ 63" and n: "nextSeq (f_cs f) < 2 ^ 63 - 1"
  shows "sys_run S enc (f, P) (f', P)"
proof -
  obtain r1 cs1 s1 fs1 where ap: "Append S data off (f_cs f) (f_store f) (f_disk f) = (r1, cs1, s1, fs1)"
    by (metis prod_cases4)
  let ?g = "f\<lparr>f_cs := cs1, f_store := s1, f_disk := fs1\<rparr>"
  have C: "f' = f \<or> (\<exists>e. r1 = Inl e \<and> f' = ?g) \<or> (\<exists>ext. r1 = Inr ext \<and> (f' = ?g
      \<or> (\<exists>idx1. WriteExtent (f_idx f) i ext now = Inr idx1 \<and> f' = ?g\<lparr>f_idx := idx1\<rparr>)))"
    using h ap by (auto simp: FileHandle_Write_def Let_def split: option.splits if_splits sum.splits)
  show ?thesis
  proof (cases r1)
    case (Inl e)
    then show ?thesis using C s_append_fail [of S data off f e cs1 s1 fs1 enc P] ap n by auto
  next
    case (Inr ext)
    have o: "swf (f_store f)" "cs_inv (objs (f_store f)) (f_cs f) (f_disk f)"
      "owned (chunk_view (objs (f_store f)) (f_cs f)) (f_idx f) P" using inv by (simp_all add: sys_inv_def fview_def)
    have new: "ext \<notin> P" by (rule owned_append(3) [OF o(1,2) n ap [unfolded Inr] d o(3)])
    have 1: "sys_step S enc (f, P) (?g, insert ext P)" by (rule s_append [OF ap [unfolded Inr] d n])
    have "sys_step S enc (?g, insert ext P) (?g, insert ext P - {ext})" by (rule s_abandon)
    then have 2: "sys_step S enc (?g, insert ext P) (?g, P)" using new by simp
    have 3: "sys_step S enc (?g, insert ext P) (?g\<lparr>f_idx := idx1\<rparr>, P)" if "WriteExtent (f_idx f) i ext now = Inr idx1" for idx1
      using s_write [of ext "insert ext P" ?g i now idx1 S enc] that new by simp
    note two = rtranclp.rtrancl_into_rtrancl [OF r_into_rtranclp [of "sys_step S enc", OF 1]]
    show ?thesis using C Inr two [OF 2] two [OF 3] by auto
  qed
qed

lemma fs_step_runs:
  assumes "fs_step S B enc f f'" and inv: "sys_inv objs swf (f, P)"
  shows "sys_run S enc (f, P) (f', P)"
proof -
  have i: "index_inv (f_idx f)" using inv by (simp add: sys_inv_def)
  from assms(1) show ?thesis
  proof cases
    case (h_setattr i req now r)
    then show ?thesis using Setattr_runs [OF h_setattr] by (auto intro: run_meta)
  next
    case (h_create p nm mode caller now rc)
    then show ?thesis using create_runs [OF i h_create(2)]
      by (auto simp: Create_def Let_def split: prod.splits sum.splits)
  next
    case (h_mkdir p nm mode caller now re)
    then show ?thesis using create_runs [OF i h_mkdir(2)]
      by (auto simp: Mkdir_def Let_def split: prod.splits sum.splits)
  next
    case (h_symlink p target nm caller now re)
    then show ?thesis using Node_Symlink_runs i by blast
  next
    case (h_link p t nm now re)
    then show ?thesis using Link_runs i by blast
  next
    case (h_unlink p nm now ru)
    then show ?thesis by (auto simp: Unlink_def split: sum.splits intro: run_meta step_remove)
  next
    case (h_rmdir p nm now ru)
    then show ?thesis by (auto simp: Rmdir_def split: sum.splits option.splits if_splits intro: run_meta step_remove)
  next
    case (h_rename p nm q newName flags now ru)
    then show ?thesis
      by (auto simp: Node_Rename_def split: sum.splits option.splits intro: run_meta step_rename)
  next
    case (h_setxattr i attr data flags now ru)
    then show ?thesis by (auto simp: Setxattr_def split: sum.splits intro: run_meta step_setxattr)
  next
    case (h_removexattr i attr now ru)
    then show ?thesis by (auto simp: Removexattr_def split: sum.splits intro: run_meta step_removexattr)
  next
    case (h_read j dest off now rb)
    have "\<forall>e \<in> set (file_extents (f_idx f) j). object_id (ChunkID e)"
      using inv owned_file by (fastforce simp: sys_inv_def held_def)
    then show ?thesis by (rule Read_runs [OF h_read])
  next
    case h_write
    then show ?thesis using Write_runs inv by blast
  next
    case h_fsync
    then show ?thesis by (rule Fsync_runs)
  qed
qed

lemma fs_step_inv:
  "fs_step S B enc f f' \<Longrightarrow> sys_inv objs swf (f, P) \<Longrightarrow>
   sys_inv objs swf (f', P) \<and> view_mono (fview objs f) (fview objs f')"
  using sys_steps_inv [OF fs_step_runs] by fastforce

end

end
