(* ===== verification/Fuse_Spec.thy ===== *)
theory Fuse_Spec
  imports Fuse_Sys
begin

text \<open>
  What the file system promises: files are byte strings, and \<^verbatim>\<open>Read\<close>, \<^verbatim>\<open>Write\<close> and a
  truncating \<^verbatim>\<open>Setattr\<close> are the POSIX operations on them. \<open>file_data\<close> abstracts a state to
  the content of its files, through the index, the chunks in the backing store and the
  active chunk.
\<close>

section \<open>Abstract files\<close>

definition posix_read :: "nat \<Rightarrow> nat \<Rightarrow> bytes \<Rightarrow> bytes" where
  "posix_read off n b = take n (drop off b)"

definition posix_write :: "nat \<Rightarrow> bytes \<Rightarrow> bytes \<Rightarrow> bytes" where
  "posix_write off d b =
     (let b' = b @ replicate (off + length d - length b) zero_byte
      in take off b' @ d @ drop (off + length d) b')"

definition posix_truncate :: "nat \<Rightarrow> bytes \<Rightarrow> bytes" where
  "posix_truncate n b = take n b @ replicate (n - length b) zero_byte"

lemma length_posix_write: "length (posix_write off d b) = max (length b) (off + length d)"
  by (simp add: posix_write_def Let_def)

lemma nth_splice:
  "off + length d \<le> length b \<Longrightarrow> k < length b \<Longrightarrow>
   (take off b @ d @ drop (off + length d) b) ! k = (if off \<le> k \<and> k < off + length d then d ! (k - off) else b ! k)"
  by (auto simp: nth_append min_def)

lemma nth_posix_write:
  assumes "k < max (length b) (off + length d)"
  shows "posix_write off d b ! k =
     (if off \<le> k \<and> k < off + length d then d ! (k - off) else if k < length b then b ! k else zero_byte)"
proof -
  define c where "c = b @ replicate (off + length d - length b) zero_byte"
  have "length c = max (length b) (off + length d)" by (simp add: c_def)
  moreover have "c ! k = (if k < length b then b ! k else zero_byte)" using assms by (auto simp: c_def nth_append)
  ultimately show ?thesis using assms nth_splice [of off d c k] by (simp add: posix_write_def c_def [symmetric])
qed

lemma posix_read_write: "posix_read off (length d) (posix_write off d b) = d"
  by (simp add: posix_read_def posix_write_def Let_def)

definition file_data :: "objects \<Rightarrow> index \<Rightarrow> ino \<Rightarrow> bytes" where
  "file_data V idx i =
     (case GetInode idx i of
        None \<Rightarrow> []
      | Some n \<Rightarrow> map (\<lambda>k. the (file_byte V idx i (int k))) [0..<nat (Size n)])"

lemma file_data_cong:
  assumes "map_option Size (GetInode idx' i) = map_option Size (GetInode idx i)"
    and "\<And>b. file_byte V' idx' i b = file_byte V idx i b"
  shows "file_data V' idx' i = file_data V idx i"
  using assms by (auto simp: file_data_def split: option.splits)

lemma length_file_data: "GetInode idx i = Some n \<Longrightarrow> length (file_data V idx i) = nat (Size n)"
  by (simp add: file_data_def)

lemma nth_file_data:
  "GetInode idx i = Some n \<Longrightarrow> k < nat (Size n) \<Longrightarrow> file_data V idx i ! k = the (file_byte V idx i (int k))"
  by (simp add: file_data_def)

lemma file_byte_hole:
  assumes "index_inv idx" and "GetInode idx i = Some n" and "FileType n = Regular" and "Size n \<le> b"
  shows "file_byte V idx i b = Some zero_byte"
proof -
  have "exts_ok (Size n) (file_extents idx i)"
    using inv_file(3) [OF assms(1) _ assms(3)] assms(2) by (simp add: GetInode_def)
  then have "loc (file_extents idx i) b = None" using assms(4) by (force simp: loc_None_iff exts_ok_def covers_def)
  then show ?thesis by (simp add: file_byte_def exts_byte_def)
qed

section \<open>Reading\<close>

lemma chunk_byte_ext:
  assumes "held V e" and "covers e b"
  shows "\<exists>c. V (ChunkID e) = Some c \<and> ext_in e c \<and> chunk_byte V (ext_loc e b) = Some (c ! nat (ChunkOffset e + (b - FileOffset e)))"
  using assms by (auto simp: held_def chunk_byte_def ext_loc_def covers_def ext_in_def)

context store_contract
begin

lemma read_loop_ok:
  "swf s \<Longrightarrow> cs_inv (objs s) cs fs \<Longrightarrow> \<forall>e \<in> set es. ext_ok e \<and> held (chunk_view (objs s) cs) e \<Longrightarrow>
   0 \<le> off \<Longrightarrow> off < fin \<Longrightarrow> fin < 2 ^ 63 \<Longrightarrow> length buf = nat (fin - off) \<Longrightarrow>
   read_loop S cs off fin es buf s fs = (Inr buf', s', fs') \<Longrightarrow>
   swf s' \<and> objs s' = objs s \<and> length buf' = length buf
   \<and> (\<forall>k < length buf. buf' ! k = (case loc es (off + int k) of None \<Rightarrow> buf ! k
         | Some l \<Rightarrow> the (chunk_byte (chunk_view (objs s) cs) l)))"
proof (induction es arbitrary: buf s fs)
  case Nil
  then show ?case by simp
next
  case (Cons e es)
  let ?V = "chunk_view (objs s) cs" let ?eEnd = "FileOffset e + Length e"
  have eo: "ext_ok e" "held ?V e" using Cons.prems(3) by simp_all
  have w: "i64 (FileOffset e + Length e) = ?eEnd" using eo(1) by (simp add: ext_ok_def i64_simps)
  show ?case
  proof (cases "?eEnd \<le> off \<or> fin \<le> FileOffset e")
    case True
    then have r: "read_loop S cs off fin es buf s fs = (Inr buf', s', fs')"
      using Cons.prems(8) by (simp add: Let_def w)
    have "\<not> covers e (off + int k)" if "k < length buf" for k
      using True that Cons.prems(5,7) by (auto simp: covers_def)
    then show ?thesis using Cons.IH [OF Cons.prems(1,2) _ Cons.prems(4-7) r] Cons.prems(3) by (auto split: option.splits)
  next
    case False
    define rs where "rs = max off (FileOffset e)"
    define re where "re = min fin ?eEnd"
    have b: "0 \<le> FileOffset e" "off \<le> rs" "FileOffset e \<le> rs" "rs < re" "re \<le> fin" "re \<le> ?eEnd"
      using False Cons.prems(4,5) eo by (auto simp: rs_def re_def ext_ok_def held_def)
    have ch: "0 \<le> ChunkOffset e" "ChunkOffset e + Length e < 2 ^ 63" using eo(1) by (simp_all add: ext_ok_def)
    have i: "i64 (rs - FileOffset e) = rs - FileOffset e" "i64 (ChunkOffset e + (rs - FileOffset e)) = ChunkOffset e + (rs - FileOffset e)"
      "i64 (re - rs) = re - rs" "i64 (rs - off) = rs - off"
      using b ch Cons.prems(4,6) by (simp_all add: i64_nonneg)
    obtain r1 s1 fs1 where rd: "Read S (ChunkID e) (ChunkOffset e + (rs - FileOffset e)) (re - rs) cs s fs = (r1, s1, fs1)"
      by (metis prod_cases3)
    have L: "read_loop S cs off fin (e # es) buf s fs = (case r1 of Inl _ \<Rightarrow> (Inl EIO, s1, fs1)
        | Inr data \<Rightarrow> if int (length buf) < rs - off then (Inl GoPanic, s1, fs1)
            else read_loop S cs off fin es (copy_at (rs - off) data buf) s1 fs1)"
      using False b by (simp add: Let_def w i rs_def [symmetric] re_def [symmetric] rd split: sum.splits)
    from L Cons.prems(8) obtain data where r1: "r1 = Inr data" by (cases r1) simp_all
    have id: "object_id (ChunkID e)" and l: "0 < Length e" using eo(2) by (simp_all add: held_def)
    obtain c where c: "?V (ChunkID e) = Some c" "ext_in e c" using eo(2) by (auto simp: held_def)
    note k = Read_safe(1) [OF Cons.prems(1,2) id rd]
    have d: "data = byte_slice (ChunkOffset e + (rs - FileOffset e)) (re - rs) c"
      using b c by (intro Read_safe(2) [OF Cons.prems(1,2) id rd r1 c(1)]) (auto simp: ext_in_def)
    have ld: "int (length data) = re - rs" unfolding d using b c(2) by (simp add: ext_in_def length_byte_slice)
    let ?buf = "copy_at (rs - off) data buf"
    have lb: "length ?buf = length buf" using b Cons.prems(5,7) by simp
    have bf: "?buf ! k = (if covers e (off + int k) then the (chunk_byte ?V (ext_loc e (off + int k))) else buf ! k)"
      if "k < length buf" for k
    proof -
      have cov: "covers e (off + int k) \<longleftrightarrow> rs - off \<le> int k \<and> int k < rs - off + int (length data)"
        using that b Cons.prems(5,7) ld by (auto simp: covers_def rs_def re_def)
      have "data ! (k - nat (rs - off)) = c ! nat (ChunkOffset e + (off + int k - FileOffset e))"
        if "rs - off \<le> int k" "int k < rs - off + int (length data)"
      proof -
        have kk: "int (k - nat (rs - off)) = int k - (rs - off)" using that b by simp
        have "data ! (k - nat (rs - off)) = c ! nat (ChunkOffset e + (rs - FileOffset e) + int (k - nat (rs - off)))"
          unfolding d using that b c(2) ld kk by (intro nth_byte_slice) (auto simp: ext_in_def)
        then show ?thesis unfolding kk by (simp add: algebra_simps)
      qed
      moreover have "the (chunk_byte ?V (ext_loc e (off + int k))) = c ! nat (ChunkOffset e + (off + int k - FileOffset e))"
        if "covers e (off + int k)" using chunk_byte_ext [OF eo(2) that] c(1) by auto
      ultimately show ?thesis using nth_copy_at [of "rs - off" data buf k] that b ld Cons.prems(5,7) cov by auto
    qed
    have r: "read_loop S cs off fin es ?buf s1 fs1 = (Inr buf', s', fs')"
      using L Cons.prems(8) r1 b Cons.prems(5,7) by (auto split: if_splits)
    have o: "objs s1 = objs s" and s1: "swf s1" "cs_inv (objs s1) cs fs1" using k by simp_all
    have "swf s' \<and> objs s' = objs s1 \<and> length buf' = length ?buf
       \<and> (\<forall>k < length ?buf. buf' ! k = (case loc es (off + int k) of None \<Rightarrow> ?buf ! k
         | Some l \<Rightarrow> the (chunk_byte (chunk_view (objs s1) cs) l)))"
      by (rule Cons.IH [OF s1 _ Cons.prems(4-6) _ r]) (use Cons.prems(3,7) lb o in auto)
    then show ?thesis using bf lb o by (auto split: option.splits)
  qed
qed

lemma Read_posix:
  assumes inv: "sys_inv objs swf (f, P)" and n: "GetInode (f_idx f) i = Some n" and reg: "FileType n = Regular"
    and off: "0 \<le> off" "off + int dest < 2 ^ 63" "0 < dest" and rd: "FileHandle_Read S i dest off now f = (Inr b, f')"
  shows "b = posix_read (nat off) dest (file_data (fview objs f) (f_idx f) i)"
    and "\<And>j. file_data (fview objs f') (f_idx f') j = file_data (fview objs f) (f_idx f) j"
proof -
  let ?V = "fview objs f" let ?idx = "f_idx f"
  have I: "swf (f_store f)" "cs_inv (objs (f_store f)) (f_cs f) (f_disk f)" "index_inv ?idx" "owned ?V ?idx P"
    using inv by (simp_all add: sys_inv_def)
  note F = inv_file [OF I(3) _ reg, of i]
  have m: "map_of (inodes ?idx) i = Some n" using n by (simp add: GetInode_def)
  have touch: "file_data V (TouchAtime ?idx i now) j = file_data V ?idx j" for V j
    by (rule file_data_cong) (auto simp: TouchAtime_def GetInode_def file_byte_def file_extents_def split: option.splits)
  have "b = posix_read (nat off) dest (file_data ?V ?idx i)
      \<and> (\<forall>j. file_data (fview objs f') (f_idx f') j = file_data ?V ?idx j)"
  proof (cases "Size n \<le> off")
    case True
    then have "b = []" "f' = f" using rd n by (simp_all add: FileHandle_Read_def)
    then show ?thesis using True length_file_data [OF n, of ?V] off by (simp add: posix_read_def)
  next
    case False
    define fin where "fin = (if Size n < off + int dest then Size n else off + int dest)"
    have fin: "off < fin" "fin \<le> Size n" "fin < 2 ^ 63" using False off(3) F(2) [OF m] by (auto simp: fin_def)
    have i: "i64 (off + int dest) = off + int dest" "i64 (fin - off) = fin - off" using off fin by (simp_all add: i64_nonneg)
    define exts where e: "exts = file_extents ?idx i"
    have x: "GetExtents ?idx i = Some exts" using F(4) [OF m] by (simp add: GetExtents_def e)
    obtain r1 s1 fs1 where l: "read_loop S (f_cs f) off fin exts (replicate (nat (fin - off)) zero_byte) (f_store f) (f_disk f) = (r1, s1, fs1)"
      by (metis prod_cases3)
    have H: "FileHandle_Read S i dest off now f = (case r1 of Inl e \<Rightarrow> (Inl e, f\<lparr>f_store := s1, f_disk := fs1\<rparr>)
        | Inr buf \<Rightarrow> (Inr buf, f\<lparr>f_idx := TouchAtime ?idx i now, f_store := s1, f_disk := fs1\<rparr>))"
      using False n x l fin by (simp add: FileHandle_Read_def Let_def i fin_def [symmetric] split: sum.splits)
    with rd have r1: "r1 = Inr b" and f': "f' = f\<lparr>f_idx := TouchAtime ?idx i now, f_store := s1, f_disk := fs1\<rparr>"
      by (cases r1; simp)+
    have "\<forall>e \<in> set exts. ext_ok e \<and> held ?V e" unfolding e using inv_exts_ok [OF I(3)] owned_file [OF I(4)] by blast
    note K = read_loop_ok [OF I(1,2) this [unfolded fview_def] off(1) fin(1,3) _ l [unfolded r1]]
    have fb: "file_byte ?V ?idx i k = (case loc exts k of None \<Rightarrow> Some zero_byte | Some l \<Rightarrow> chunk_byte ?V l)" for k
      by (simp add: file_byte_def exts_byte_def e)
    have "b = posix_read (nat off) dest (file_data ?V ?idx i)"
    proof (rule nth_equalityI)
      show len: "length b = length (posix_read (nat off) dest (file_data ?V ?idx i))"
        using K off fin length_file_data [OF n, of ?V] by (auto simp: posix_read_def fin_def)
      fix k assume k: "k < length b"
      then have "int k < fin - off" using K by simp
      then have "posix_read (nat off) dest (file_data ?V ?idx i) ! k = the (file_byte ?V ?idx i (off + int k))"
        using k len off fin length_file_data [OF n, of ?V] nth_file_data [OF n, of "nat off + k" ?V]
        by (simp add: posix_read_def)
      moreover have "b ! k = the (file_byte ?V ?idx i (off + int k))"
        unfolding fb using K k by (auto simp: fview_def split: option.splits)
      ultimately show "b ! k = posix_read (nat off) dest (file_data ?V ?idx i) ! k" by simp
    qed
    moreover have "fview objs f' = ?V" using K by (simp add: f' fview_def)
    ultimately show ?thesis by (simp add: f' touch)
  qed
  then show "b = posix_read (nat off) dest (file_data ?V ?idx i)"
    and "\<And>j. file_data (fview objs f') (f_idx f') j = file_data ?V ?idx j" by blast+
qed

end

section \<open>Writing\<close>

text \<open>The write leaves every extent but the last one in at most one piece.\<close>

definition write_safe :: "index \<Rightarrow> ino \<Rightarrow> int \<Rightarrow> nat \<Rightarrow> bool" where
  "write_safe idx i off n =
     split_safe \<lparr>ChunkID = [], ChunkOffset = 0, Length = int n, FileOffset = off\<rparr> (file_extents idx i)"

lemma split_safe_range: "Length a = Length b \<Longrightarrow> FileOffset a = FileOffset b \<Longrightarrow> split_safe a es = split_safe b es"
  unfolding split_safe_def write_pieces_def Let_def by simp

lemma file_byte_mono:
  assumes h: "\<And>e. e \<in> set (file_extents idx i) \<Longrightarrow> held V e" and m: "view_mono V V'"
  shows "file_byte V' idx i b = file_byte V idx i b"
proof (cases "loc (file_extents idx i) b")
  case None
  then show ?thesis by (simp add: file_byte_def exts_byte_def)
next
  case (Some l)
  then obtain e where e: "e \<in> set (file_extents idx i)" "covers e b" "l = ext_loc e b" by (rule loc_SomeE)
  obtain c where c: "V (ChunkID e) = Some c" "ext_in e c" "0 < Length e" using h [OF e(1)] by (auto simp: held_def)
  then have "c \<noteq> []" by (auto simp: ext_in_def)
  with m c obtain c' where c': "V' (ChunkID e) = Some c'" "prefix c c'" unfolding view_mono_def by blast
  from ext_mono [OF c(2) c'(2)] chunk_byte_data [of V e c b] chunk_byte_data [of V' e c' b] c c' e(2)
  show ?thesis by (simp add: file_byte_def exts_byte_def Some e(3))
qed

lemma file_byte_loc: "file_byte V idx i b = (case file_loc idx i b of None \<Rightarrow> Some zero_byte | Some l \<Rightarrow> chunk_byte V l)"
  by (simp add: file_byte_def exts_byte_def file_loc_def)

lemma write_file_data:
  assumes n: "GetInode idx i = Some n" "0 \<le> Size n" and m: "GetInode idx' i = Some m" "Size m = max (Size n) (off + int (length d))"
    and off: "0 \<le> off" and hole: "\<And>b. Size n \<le> b \<Longrightarrow> file_byte V idx i b = Some zero_byte"
    and fb: "\<And>b. file_byte V' idx' i b = (if off \<le> b \<and> b < off + int (length d) then Some (d ! nat (b - off)) else file_byte V idx i b)"
  shows "file_data V' idx' i = posix_write (nat off) d (file_data V idx i)"
proof (rule nth_equalityI)
  have l: "length (file_data V idx i) = nat (Size n)" by (rule length_file_data [OF n(1)])
  show len: "length (file_data V' idx' i) = length (posix_write (nat off) d (file_data V idx i))"
    using m off n by (simp add: length_file_data [OF m(1)] length_posix_write l max_def nat_add_distrib split: if_splits)
  fix k assume k: "k < length (file_data V' idx' i)"
  then have k1: "k < nat (Size m)" using length_file_data [OF m(1)] by simp
  have k2: "k < max (length (file_data V idx i)) (nat off + length d)" using k len by (simp add: length_posix_write)
  show "file_data V' idx' i ! k = posix_write (nat off) d (file_data V idx i) ! k"
    unfolding nth_file_data [OF m(1) k1] nth_posix_write [OF k2] fb l
    using nth_file_data [OF n(1), of k V] hole [of "int k"] off by (auto simp: nat_diff_distrib)
qed

context store_contract
begin

lemma Write_posix:
  assumes inv: "sys_inv objs swf (f, P)" and d: "data \<noteq> []" "0 \<le> off" "off + int (length data) < 2 ^ 63"
    and nx: "nextSeq (f_cs f) < 2 ^ 63 - 1" and safe: "write_safe (f_idx f) i off (length data)"
    and wr: "FileHandle_Write S i data off now f = (Inr w, f')"
  shows "w = of_nat (length data)"
    and "file_data (fview objs f') (f_idx f') j = (if j = i then posix_write (nat off) data (file_data (fview objs f) (f_idx f) i)
           else file_data (fview objs f) (f_idx f) j)"
proof -
  let ?V = "fview objs f" let ?idx = "f_idx f"
  have I: "swf (f_store f)" "cs_inv (objs (f_store f)) (f_cs f) (f_disk f)" "index_inv ?idx" "owned ?V ?idx P"
    using inv by (simp_all add: sys_inv_def)
  obtain r1 cs1 s1 fs1 where ap: "Append S data off (f_cs f) (f_store f) (f_disk f) = (r1, cs1, s1, fs1)"
    by (metis prod_cases4)
  obtain ext idx1 where r1: "r1 = Inr ext" and we: "WriteExtent ?idx i ext now = Inr idx1"
    and f': "f' = f\<lparr>f_idx := idx1, f_cs := cs1, f_store := s1, f_disk := fs1\<rparr>" and ww: "w = of_nat (length data)"
    using wr ap by (auto simp: FileHandle_Write_def Let_def split: option.splits if_splits sum.splits)
  show "w = of_nat (length data)" by (rule ww)
  note A = Append_safe [OF I(1,2) nx ap]
  from A(4) [OF r1] obtain c where c: "chunk_view (objs s1) cs1 (ChunkID ext) = Some c" "ext_in ext c" "ext_data ext c = data"
    and l: "Length ext = int (length data)" "FileOffset ext = off" by blast
  let ?V' = "fview objs f'"
  have V': "?V' = chunk_view (objs s1) cs1" by (simp add: f' fview_def)
  have mono: "view_mono ?V ?V'" unfolding V' using A(3) by (simp add: fview_def)
  have ok: "ext_ok ext" using owned_append(2) [OF I(1,2) nx ap [unfolded r1] d I(4) [unfolded fview_def]] .
  have ss: "split_safe ext (file_extents ?idx i)"
    using safe split_safe_range [of ext "\<lparr>ChunkID = [], ChunkOffset = 0, Length = int (length data), FileOffset = off\<rparr>"] l
    by (simp add: write_safe_def)
  note W = WriteExtent_loc [OF I(3) we ok ss]
  have fb: "file_byte ?V' idx1 j b = (if j = i \<and> off \<le> b \<and> b < off + int (length data) then Some (data ! nat (b - off))
      else file_byte ?V ?idx j b)" for j b
  proof (cases "j = i \<and> covers ext b")
    case True
    then have "file_byte ?V' idx1 j b = Some (ext_data ext c ! nat (b - FileOffset ext))"
      using chunk_byte_data [of "chunk_view (objs s1) cs1" ext c b] c by (simp add: file_byte_loc W V')
    then show ?thesis using True c(3) l by (simp add: covers_def)
  next
    case False
    then have "file_loc idx1 j b = file_loc ?idx j b" by (auto simp: W)
    then have "file_byte ?V' idx1 j b = file_byte ?V' ?idx j b" by (simp add: file_byte_loc)
    also have "\<dots> = file_byte ?V ?idx j b" by (rule file_byte_mono [OF owned_file [OF I(4)] mono])
    finally show ?thesis using False l by (auto simp: covers_def)
  qed
  from we ok show "file_data ?V' (f_idx f') j = (if j = i then posix_write (nat off) data (file_data ?V ?idx i)
           else file_data ?V ?idx j)"
  proof (rule WriteExtent_cases)
    fix n assume n: "GetInode ?idx i = Some n" "FileType n = Regular"
      and G: "\<And>j. GetInode idx1 j = (if j = i then Some (touch_mc now (grow (FileOffset ext + Length ext) n)) else GetInode ?idx j)"
    show ?thesis
    proof (cases "j = i")
      case True
      let ?m = "touch_mc now (grow (FileOffset ext + Length ext) n)"
      have "file_data ?V' idx1 i = posix_write (nat off) data (file_data ?V ?idx i)"
      proof (rule write_file_data [OF n(1), where m = ?m])
        show "0 \<le> Size n" using inv_file(1) [OF I(3) _ n(2)] n(1) by (simp add: GetInode_def)
        show "GetInode idx1 i = Some ?m" by (simp add: G)
        show "Size ?m = max (Size n) (off + int (length data))" by (simp add: l touch_mc_def grow_def)
      qed (use d fb file_byte_hole [OF I(3) n] in auto)
      then show ?thesis using True by (simp add: f')
    next
      case False
      then have "file_data ?V' idx1 j = file_data ?V ?idx j"
        by (intro file_data_cong) (simp_all add: G fb)
      then show ?thesis using False by (simp add: f')
    qed
  qed
qed

end

section \<open>Truncating\<close>

lemma Setattr_posix:
  assumes inv: "index_inv (f_idx f)" and n: "GetInode (f_idx f) i = Some n" and reg: "FileType n = Regular"
    and v: "S_Valid req AND FATTR_SIZE B \<noteq> 0" and s: "0 \<le> sint (S_Size req)"
    and r: "Setattr B i req now f = (r, f')"
  shows "\<exists>a. r = Inr a" and "file_data V (f_idx f') j = (if j = i then posix_truncate (nat (sint (S_Size req))) (file_data V (f_idx f) i)
           else file_data V (f_idx f) j)"
    and "f_cs f' = f_cs f" and "f_store f' = f_store f" and "f_disk f' = f_disk f"
proof -
  let ?s = "sint (S_Size req)"
  define mode where "mode = given (S_Valid req) (FATTR_MODE B) (S_Mode req AND NOT all_types)"
  define uid where "uid = given (S_Valid req) (FATTR_UID B) (S_Uid req)"
  define gid where "gid = given (S_Valid req) (FATTR_GID B) (S_Gid req)"
  define atime where "atime = given (S_Valid req) (FATTR_ATIME B) (join_time (S_Atime req) (S_Atimensec req))"
  define mtime where "mtime = given (S_Valid req) (FATTR_MTIME B) (join_time (S_Mtime req) (S_Mtimensec req))"
  have s63: "?s < 2 ^ 63" using sint_lt [of "S_Size req"] by simp
  from SetAttr_size [OF inv n reg s s63, of mode uid gid atime mtime now] obtain idx' m where
    e: "SetAttr (f_idx f) i mode uid gid (Some ?s) atime mtime now = Inr idx'"
    and m: "GetInode idx' i = Some m" "Size m = ?s"
    and l: "\<And>j b. file_loc idx' j b = (if j = i \<and> ?s \<le> b then None else file_loc (f_idx f) j b)"
    and o: "\<And>j. j \<noteq> i \<Longrightarrow> GetInode idx' j = GetInode (f_idx f) j" by metis
  have E: "r = Inr (fillAttr m, attrTTL)" "f' = f\<lparr>f_idx := idx'\<rparr>"
    using r v e m(1) by (simp_all add: Setattr_def mode_def uid_def gid_def atime_def mtime_def given_def [of _ "FATTR_SIZE B"])
  show "\<exists>a. r = Inr a" "f_cs f' = f_cs f" "f_store f' = f_store f" "f_disk f' = f_disk f" using E by simp_all
  have fb: "file_byte V idx' j b = (if j = i \<and> ?s \<le> b then Some zero_byte else file_byte V (f_idx f) j b)" for j b
    by (simp add: file_byte_loc l)
  show "file_data V (f_idx f') j = (if j = i then posix_truncate (nat ?s) (file_data V (f_idx f) i) else file_data V (f_idx f) j)"
  proof (cases "j = i")
    case True
    have "file_data V idx' i = posix_truncate (nat ?s) (file_data V (f_idx f) i)"
    proof (rule nth_equalityI)
      show "length (file_data V idx' i) = length (posix_truncate (nat ?s) (file_data V (f_idx f) i))"
        using m by (simp add: length_file_data [OF m(1)] posix_truncate_def)
      fix k assume "k < length (file_data V idx' i)"
      then have k: "k < nat (Size m)" using length_file_data [OF m(1)] by simp
      show "file_data V idx' i ! k = posix_truncate (nat ?s) (file_data V (f_idx f) i) ! k"
        unfolding nth_file_data [OF m(1) k] fb
        using k m(2) nth_file_data [OF n, of k V] file_byte_hole [OF inv n reg, of "int k" V] length_file_data [OF n, of V]
        by (auto simp: posix_truncate_def nth_append)
    qed
    then show ?thesis using True E by simp
  next
    case False
    then have "file_data V idx' j = file_data V (f_idx f) j"
      using o by (intro file_data_cong) (simp_all add: fb)
    then show ?thesis using False E by simp
  qed
qed

end
