(* ===== verification/Fuse_Live.thy ===== *)
theory Fuse_Live
  imports Fuse_Spec
begin

text \<open>
  Progress and capacity. On a working store and disk, reads always return data and writes
  fail only for lack of space; a write never pushes the file system over its capacity;
  and a successful \<^verbatim>\<open>Fsync\<close> makes a restart from disk see every file as it was.
\<close>

section \<open>Progress\<close>

context store_live
begin

lemma read_loop_live:
  "good s \<Longrightarrow> cs_inv (objs s) cs fs \<Longrightarrow> disk_good cs fs \<Longrightarrow>
   \<forall>e \<in> set es. ext_ok e \<and> held (chunk_view (objs s) cs) e \<Longrightarrow>
   0 \<le> off \<Longrightarrow> off < fin \<Longrightarrow> fin < 2 ^ 63 \<Longrightarrow> length buf = nat (fin - off) \<Longrightarrow>
   \<exists>buf' s' fs'. read_loop S cs off fin es buf s fs = (Inr buf', s', fs') \<and> good s' \<and> disk_good cs fs'"
proof (induction es arbitrary: buf s fs)
  case Nil
  then show ?case by simp
next
  case (Cons e es)
  let ?V = "chunk_view (objs s) cs" let ?eEnd = "FileOffset e + Length e"
  have eo: "ext_ok e" "held ?V e" using Cons.prems(4) by simp_all
  have w: "i64 (FileOffset e + Length e) = ?eEnd" using eo(1) by (simp add: ext_ok_def i64_simps)
  show ?case
  proof (cases "?eEnd \<le> off \<or> fin \<le> FileOffset e")
    case True
    then show ?thesis using Cons.IH [OF Cons.prems(1-3) _ Cons.prems(5-8)] Cons.prems(4) by (simp add: Let_def w)
  next
    case False
    define rs where "rs = max off (FileOffset e)"
    define re where "re = min fin ?eEnd"
    have b: "0 \<le> FileOffset e" "off \<le> rs" "FileOffset e \<le> rs" "rs < re" "re \<le> fin" "re \<le> ?eEnd"
      using False Cons.prems(5,6) eo by (auto simp: rs_def re_def ext_ok_def held_def)
    have ch: "0 \<le> ChunkOffset e" "ChunkOffset e + Length e < 2 ^ 63" using eo(1) by (simp_all add: ext_ok_def)
    have i: "i64 (rs - FileOffset e) = rs - FileOffset e" "i64 (ChunkOffset e + (rs - FileOffset e)) = ChunkOffset e + (rs - FileOffset e)"
      "i64 (re - rs) = re - rs" "i64 (rs - off) = rs - off"
      using b ch Cons.prems(5,7) by (simp_all add: i64_nonneg)
    have id: "object_id (ChunkID e)" using eo(2) by (simp add: held_def)
    obtain c where c: "?V (ChunkID e) = Some c" "ext_in e c" using eo(2) by (auto simp: held_def)
    have "0 \<le> ChunkOffset e + (rs - FileOffset e)" "0 < re - rs"
      "ChunkOffset e + (rs - FileOffset e) + (re - rs) \<le> int (length c)" using b ch c(2) by (auto simp: ext_in_def)
    from Read_live [OF Cons.prems(1-3) id c(1) this] obtain data s1 fs1 where
      rd: "Read S (ChunkID e) (ChunkOffset e + (rs - FileOffset e)) (re - rs) cs s fs = (Inr data, s1, fs1)"
      and g1: "good s1" "disk_good cs fs1" by blast
    have L: "read_loop S cs off fin (e # es) buf s fs = read_loop S cs off fin es (copy_at (rs - off) data buf) s1 fs1"
      using False b Cons.prems(6,8) by (simp add: Let_def w i rs_def [symmetric] re_def [symmetric] rd)
    note k = Read_safe(1) [OF good_wf [OF Cons.prems(1)] Cons.prems(2) id rd]
    have o: "objs s1 = objs s" and c1: "cs_inv (objs s1) cs fs1" using k by simp_all
    show ?thesis unfolding L
      by (rule Cons.IH [OF g1(1) c1 g1(2) _ Cons.prems(5-7)]) (use Cons.prems(4,6,8) b o in auto)
  qed
qed

lemma FileHandle_Read_live:
  assumes inv: "sys_inv objs swf (f, P)" and g: "good (f_store f)" "disk_good (f_cs f) (f_disk f)"
    and n: "GetInode (f_idx f) i = Some n" and reg: "FileType n = Regular"
    and off: "0 \<le> off" "off + int dest < 2 ^ 63" "0 < dest"
  shows "\<exists>b f'. FileHandle_Read S i dest off now f = (Inr b, f') \<and> good (f_store f') \<and> disk_good (f_cs f') (f_disk f')"
proof (cases "Size n \<le> off")
  case True
  then show ?thesis using n g by (simp add: FileHandle_Read_def)
next
  case False
  let ?idx = "f_idx f"
  have I: "cs_inv (objs (f_store f)) (f_cs f) (f_disk f)" "index_inv ?idx" "owned (fview objs f) ?idx P"
    using inv by (simp_all add: sys_inv_def)
  have m: "map_of (inodes ?idx) i = Some n" using n by (simp add: GetInode_def)
  note F = inv_file [OF I(2) m reg]
  define fin where "fin = (if Size n < off + int dest then Size n else off + int dest)"
  have fin: "off < fin" "fin < 2 ^ 63" using False off F(2) by (auto simp: fin_def)
  have i: "i64 (off + int dest) = off + int dest" "i64 (fin - off) = fin - off" using off fin by (simp_all add: i64_nonneg)
  have "\<forall>e \<in> set (file_extents ?idx i). ext_ok e \<and> held (chunk_view (objs (f_store f)) (f_cs f)) e"
    using inv_exts_ok [OF I(2)] owned_file [OF I(3)] by (auto simp: fview_def)
  from read_loop_live [OF g(1) I(1) g(2) this off(1) fin(1,2), of "replicate (nat (fin - off)) zero_byte"]
  obtain b s1 fs1 where "read_loop S (f_cs f) off fin (file_extents ?idx i) (replicate (nat (fin - off)) zero_byte) (f_store f) (f_disk f)
      = (Inr b, s1, fs1)" "good s1" "disk_good (f_cs f) fs1" by auto
  then show ?thesis
    using False n F(4) fin by (simp add: FileHandle_Read_def Let_def GetExtents_def i fin_def [symmetric])
qed

lemma FileHandle_Write_live:
  assumes inv: "sys_inv objs swf (f, P)" and g: "good (f_store f)" "disk_good (f_cs f) (f_disk f)"
    and n: "GetInode (f_idx f) i = Some n" and reg: "FileType n = Regular"
    and l: "int (length data) \<le> maxChunkSize (f_cs f)"
    and sp: "\<not> (Size n < i64 (off + int (length data))
        \<and> maxFSSize f < i64 (UsedBytes (f_idx f) + i64 (i64 (off + int (length data)) - Size n)))"
  shows "\<exists>f'. FileHandle_Write S i data off now f = (Inr (of_nat (length data)), f')
    \<and> good (f_store f') \<and> disk_good (f_cs f') (f_disk f')"
proof -
  have I: "cs_inv (objs (f_store f)) (f_cs f) (f_disk f)" using inv by (simp add: sys_inv_def)
  from Append_live [OF g(1) I g(2) l, of off] obtain ext cs1 s1 fs1 where
    ap: "Append S data off (f_cs f) (f_store f) (f_disk f) = (Inr ext, cs1, s1, fs1)" "good s1" "disk_good cs1 fs1" by blast
  have "is_file (f_idx f) i" using n reg by (simp add: is_file_def GetInode_def)
  then obtain idx1 where "WriteExtent (f_idx f) i ext now = Inr idx1" using WriteExtent_succeeds by blast
  then show ?thesis using n sp ap unfolding FileHandle_Write_def Let_def by (simp del: de_Morgan_conj not_less not_le)
qed

end

section \<open>Capacity\<close>

lemma FileHandle_Write_capacity:
  assumes inv: "index_inv (f_idx f)" and off: "0 \<le> off" "off + int (length data) < 2 ^ 63"
    and u: "0 \<le> used_total (f_idx f)" "used_total (f_idx f) < 2 ^ 62" "off + int (length data) < 2 ^ 62"
    and wr: "FileHandle_Write S i data off now f = (Inr w, f')"
  shows "used_total (f_idx f') \<le> max (used_total (f_idx f)) (maxFSSize f)"
proof -
  let ?idx = "f_idx f"
  obtain n where n: "GetInode ?idx i = Some n" using wr by (cases "GetInode ?idx i") (simp_all add: FileHandle_Write_def)
  define full where "full \<longleftrightarrow> Size n < i64 (off + int (length data))
      \<and> maxFSSize f < i64 (UsedBytes ?idx + i64 (i64 (off + int (length data)) - Size n))"
  obtain r1 cs1 s1 fs1 where ap1: "Append S data off (f_cs f) (f_store f) (f_disk f) = (r1, cs1, s1, fs1)"
    by (metis prod_cases4)
  have wr': "(if full then (Inl ENOSPC, f) else (case r1 of Inl _ \<Rightarrow> (Inl EIO, f\<lparr>f_cs := cs1, f_store := s1, f_disk := fs1\<rparr>)
      | Inr ext \<Rightarrow> (case WriteExtent ?idx i ext now of Inl _ \<Rightarrow> (Inl EIO, f\<lparr>f_cs := cs1, f_store := s1, f_disk := fs1\<rparr>)
        | Inr idx1 \<Rightarrow> (Inr (of_nat (length data)), f\<lparr>f_idx := idx1, f_cs := cs1, f_store := s1, f_disk := fs1\<rparr>)))) = (Inr w, f')"
    using wr by (simp only: FileHandle_Write_def n Let_def option.case full_def [symmetric] ap1 prod.case)
  obtain ext idx1 where sp: "\<not> full" and ap: "Append S data off (f_cs f) (f_store f) (f_disk f) = (Inr ext, cs1, s1, fs1)"
    and we: "WriteExtent ?idx i ext now = Inr idx1" and f': "f_idx f' = idx1"
    using wr' ap1 by (auto split: sum.splits if_splits)
  have ext: "FileOffset ext = off" "Length ext = int (length data)"
    using ap by (auto simp: Append_def append_active_def split: if_splits prod.splits sum.splits)
  have e: "i64 (off + int (length data)) = off + int (length data)" using off by (simp add: i64_nonneg)
  have reg: "FileType n = Regular" using we n by (auto simp: WriteExtent_def GetInode_def split: if_splits)
  have m: "map_of (inodes ?idx) i = Some n" using n by (simp add: GetInode_def)
  have sz: "0 \<le> Size n" by (rule inv_file(1) [OF inv m reg])
  let ?m = "touch_mc now (grow (off + int (length data)) n)"
  have "idx1 = mark_dirty (put_inode i ?m (?idx\<lparr>extents := AList.update i (write_extents ext (file_extents ?idx i)) (extents ?idx)\<rparr>))"
    using we m reg by (simp add: WriteExtent_def Let_def ext e)
  then have "used_total idx1 = used_total (put_inode i ?m ?idx)" by (simp add: used_total_def put_inode_def mark_dirty_def)
  also have "\<dots> = used_total ?idx + (Size ?m - Size n)"
    using used_total_put [OF m, of ?m] reg by (simp add: touch_mc_def grow_def)
  also have "Size ?m = max (Size n) (off + int (length data))" by (simp add: touch_mc_def grow_def)
  finally have T: "used_total idx1 = used_total ?idx + (max (Size n) (off + int (length data)) - Size n)" .
  show ?thesis
  proof (cases "Size n < off + int (length data)")
    case True
    have "i64 (off + int (length data) - Size n) = off + int (length data) - Size n" using True sz off by (simp add: i64_nonneg)
    moreover have "UsedBytes ?idx = used_total ?idx" using u by (simp add: UsedBytes_i64 i64_nonneg)
    moreover have "i64 (used_total ?idx + (off + int (length data) - Size n)) = used_total ?idx + (off + int (length data) - Size n)"
      using True u sz by (intro i64_nonneg) simp_all
    ultimately show ?thesis using sp T True by (simp add: full_def e f')
  next
    case False
    then show ?thesis using T by (simp add: f')
  qed
qed

section \<open>Restart\<close>

lemma index_same_file:
  assumes "index_same a b"
  shows "GetInode b = GetInode a" and "file_extents b = file_extents a" and "Lookup b = Lookup a"
proof -
  show "GetInode b = GetInode a" using assms by (simp add: index_same_def same_map_def GetInode_def fun_eq_iff)
  show "file_extents b = file_extents a" using assms by (simp add: index_same_def same_map_def file_extents_def fun_eq_iff)
  have l: "map_option map_of (map_of (dirIndex a) p) = map_option map_of (map_of (dirIndex b) p)" for p
    using assms by (simp add: index_same_def same_nested_def)
  have "Lookup b p nm = Lookup a p nm" for p nm
    unfolding Lookup_def using l [of p]
    by (cases "map_of (dirIndex a) p"; cases "map_of (dirIndex b) p") auto
  then show "Lookup b = Lookup a" by blast
qed

lemma Load_data:
  assumes "Load cdec dir bs fs = (Inr idx, fs')"
  shows "\<exists>d. map_of (files fs) (dir @ [snapshotFile]) = Some d \<and> Unmarshal cdec d bs = Inr idx"
proof -
  obtain d where "map_of (files fs) (dir @ [snapshotFile]) = Some d" "cdec d \<noteq> None"
    "\<forall>ws. cdec d = Some ws \<longrightarrow> idx = FromSnapshot (fromWireSnapshot ws) bs"
    using assms by (auto simp: Load_def ReadFile_def Let_def split: prod.splits option.splits if_splits dest!: os_tick_keeps)
  then show ?thesis by (auto simp: Unmarshal_def)
qed

context store_contract
begin

lemma Fsync_restart:
  assumes inv: "sys_inv objs swf (f, P)" and sy: "Fsync S enc f = (Inr (), f')" and dir: "cacheDir f = Some dir"
    and per: "\<forall>e \<in> set (LiveExtents (f_idx f)). persistable (ChunkID e)" and codec: "codec_ok enc cdec"
    and ld: "Load cdec dir bs (f_disk f') = (Inr idx2, fs2)"
    and cs2: "objs s2 = objs (f_store f')" "objs s2 (activeID cs2) = None"
  shows "index_same (f_idx f) idx2" and "index_inv idx2"
    and "file_data (chunk_view (objs s2) cs2) idx2 j = file_data (fview objs f) (f_idx f) j"
proof -
  have I: "swf (f_store f)" "cs_inv (objs (f_store f)) (f_cs f) (f_disk f)" "index_inv (f_idx f)" "owned (fview objs f) (f_idx f) P"
    using inv by (simp_all add: sys_inv_def)
  obtain r1 cs1 s1 where fl: "FlushActive S (f_cs f) (f_store f) = (r1, cs1, s1)" by (metis prod_cases3)
  obtain r2 idx1 fs1 where sv: "Save enc (f_idx f) dir (f_disk f) = (r2, idx1, fs1)" by (metis prod_cases3)
  have r: "r1 = Inr ()" "r2 = Inr ()" "f_store f' = s1" "f_disk f' = fs1"
    using sy fl sv dir by (auto simp: Fsync_def split: sum.splits)
  from Save_cases [OF sv] r(2) obtain d where d: "Marshal enc (f_idx f) = Inr d" "map_of (files fs1) (dir @ [snapshotFile]) = Some d"
    by auto
  have "Unmarshal cdec d bs = Inr idx2" using Load_data [OF ld] d(2) r(4) by auto
  then have same: "index_same (f_idx f) idx2" "index_inv idx2" using Unmarshal_Marshal [OF I(3) per codec d(1), of bs] by auto
  then show "index_same (f_idx f) idx2" "index_inv idx2" by blast+
  note E = index_same_file [OF same(1)]
  have "chunk_view (objs s2) cs2 (ChunkID e) = fview objs f (ChunkID e)" if e: "e \<in> set (file_extents (f_idx f) j)" for e
  proof -
    obtain c where c: "fview objs f (ChunkID e) = Some c" "ext_in e c" "0 < Length e"
      using owned_file [OF I(4) e] by (auto simp: held_def)
    then have "c \<noteq> []" by (auto simp: ext_in_def)
    then have "objs s1 (ChunkID e) = Some c" using FlushActive_safe(4) [OF I(1,2) fl r(1)] c(1) by (simp add: fview_def)
    then show ?thesis using c(1) cs2 r(3) by (auto simp: chunk_view_def)
  qed
  then have "file_byte (chunk_view (objs s2) cs2) idx2 j b = file_byte (fview objs f) (f_idx f) j b" for b
    unfolding file_byte_def E(2) by (intro exts_byte_cong) simp
  then show "file_data (chunk_view (objs s2) cs2) idx2 j = file_data (fview objs f) (f_idx f) j"
    by (intro file_data_cong) (simp_all add: E(1))
qed

end

end
