(* ===== verification/Fuse_Names.thy ===== *)
theory Fuse_Names
  imports Fuse_Live
begin

text \<open>
  The handlers on names and attributes: creating, removing and listing entries, attributes
  and their times, extended attributes, and the capacity report.
\<close>

section \<open>Entries\<close>

lemma AddDirEntry_GetInode:
  assumes "AddDirEntry idx p nm c now = Inr idx'" and "c \<noteq> p"
  shows "GetInode idx' c = map_option (\<lambda>n. n\<lparr>Nlink := Nlink n + 1, Ctime := now\<rparr>) (GetInode idx c)"
  using assms by (auto simp: AddDirEntry_def GetInode_modify split: option.splits if_splits)

lemma CreateInode_facts:
  assumes inv: "index_inv idx" and c: "CreateInode idx ft mode uid gid rdev now = (i, idx1)"
    and ft: "ft \<noteq> Directory" and n: "nextIno idx \<noteq> - 1"
  shows "i = nextIno idx" and "index_inv idx1" and "Lookup idx1 = Lookup idx"
    and "GetInode idx1 i = Some (fresh_inode idx ft mode uid gid rdev now)"
    and "is_dir idx1 p \<longleftrightarrow> is_dir idx p" and "GetInode idx i = None"
proof -
  show i: "i = nextIno idx" using c by (simp add: CreateInode_def Let_def)
  show "index_inv idx1" by (rule CreateInode_inv(1) [OF inv n c])
  show "Lookup idx1 = Lookup idx" using c ft by (auto simp: CreateInode_def Let_def Lookup_def fun_eq_iff split: if_splits)
  show "GetInode idx i = None" using inv i
    by (cases "map_of (inodes idx) i") (auto simp: GetInode_def index_inv_def wf_inodes_def)
  then have np: "map_of (inodes idx) i = None" by (simp add: GetInode_def)
  have m: "map_of (inodes idx1) = (map_of (inodes idx))(i \<mapsto> fresh_inode idx ft mode uid gid rdev now)"
    using c ft by (auto simp: CreateInode_def Let_def put_inode_def mark_dirty_def fun_eq_iff)
  then show "GetInode idx1 i = Some (fresh_inode idx ft mode uid gid rdev now)" by (simp add: GetInode_def)
  show "is_dir idx1 p \<longleftrightarrow> is_dir idx p"
    using m np ft by (auto simp: is_dir_def fresh_inode_def zero_inode_def)
qed

lemma Create_cases:
  assumes inv: "index_inv (f_idx f)" and n: "nextIno (f_idx f) \<noteq> - 1" and h: "Create p nm mode caller now f = (r, f')"
  shows "is_dir (f_idx f) p \<Longrightarrow> Lookup (f_idx f) p nm = None \<Longrightarrow> \<exists>out. r = Inr (out, nextIno (f_idx f))
      \<and> GetInode (f_idx f) (nextIno (f_idx f)) = None
      \<and> Node_Lookup p nm f' = Inr out \<and> E_Ino out = nextIno (f_idx f) \<and> A_Nlink (E_Attr out) = 1 \<and> A_Size (E_Attr out) = 0
      \<and> A_Mode (E_Attr out) = Regular OR (mode AND 0xFFF)
      \<and> (\<forall>q m. Lookup (f_idx f') q m = (if q = p \<and> m = nm then Some (nextIno (f_idx f)) else Lookup (f_idx f) q m))"
    and "\<not> (is_dir (f_idx f) p \<and> Lookup (f_idx f) p nm = None) \<Longrightarrow> r = Inl EEXIST \<and> Lookup (f_idx f') = Lookup (f_idx f)"
proof -
  let ?idx = "f_idx f"
  obtain uid gid where u: "caller_ids caller = (uid, gid)" by force
  obtain i idx1 where c: "CreateInode ?idx Regular (mode AND 0xFFF) uid gid 0 now = (i, idx1)" by force
  note C = CreateInode_facts [OF inv c file_types_distinct(1) n]
  have suc: "(\<exists>idx2. AddDirEntry idx1 p nm i now = Inr idx2) \<longleftrightarrow> is_dir ?idx p \<and> Lookup ?idx p nm = None"
    using AddDirEntry_succeeds [OF C(2), of p nm i now] C(3,4,5) by simp
  have H: "(r, f') = (case AddDirEntry idx1 p nm i now of Inl e \<Rightarrow> (Inl (as_errno EEXIST e), f\<lparr>f_idx := idx1\<rparr>)
      | Inr idx2 \<Rightarrow> (Inr (entry_reply (inode_or_zero idx2 i) i Regular, i), f\<lparr>f_idx := idx2\<rparr>))"
    using h u c by (simp add: Create_def)
  show "\<exists>out. r = Inr (out, nextIno ?idx) \<and> GetInode ?idx (nextIno ?idx) = None
      \<and> Node_Lookup p nm f' = Inr out \<and> E_Ino out = nextIno ?idx \<and> A_Nlink (E_Attr out) = 1 \<and> A_Size (E_Attr out) = 0
      \<and> A_Mode (E_Attr out) = Regular OR (mode AND 0xFFF)
      \<and> (\<forall>q m. Lookup (f_idx f') q m = (if q = p \<and> m = nm then Some (nextIno ?idx) else Lookup ?idx q m))"
    if d: "is_dir ?idx p" and l: "Lookup ?idx p nm = None"
  proof -
    from suc d l obtain idx2 where a: "AddDirEntry idx1 p nm i now = Inr idx2" by blast
    have ip: "i \<noteq> p" using d C(6) by (auto simp: is_dir_def GetInode_def)
    note L = AddDirEntry_Lookup(2) [OF a, unfolded C(3)]
    let ?n = "(fresh_inode ?idx Regular (mode AND 0xFFF) uid gid 0 now)\<lparr>Nlink := 1, Ctime := now\<rparr>"
    have g: "GetInode idx2 i = Some ?n" using AddDirEntry_GetInode [OF a ip] C(4) by (simp add: fresh_inode_def zero_inode_def)
    have E: "r = Inr (entry_reply ?n i Regular, i)" "f' = f\<lparr>f_idx := idx2\<rparr>" using H a g by (simp_all add: inode_or_zero_def)
    have "FileType ?n = Regular" "FullMode ?n = Regular OR (mode AND 0xFFF)" "Size ?n = 0"
      by (simp_all add: fresh_inode_def zero_inode_def FullMode_def)
    then show ?thesis using E L g C(1,6) by (simp add: Node_Lookup_def entry_reply_def fillAttr_def)
  qed
  show "r = Inl EEXIST \<and> Lookup (f_idx f') = Lookup ?idx" if "\<not> (is_dir ?idx p \<and> Lookup ?idx p nm = None)"
  proof -
    from suc that obtain e where e: "AddDirEntry idx1 p nm i now = Inl e" by (cases "AddDirEntry idx1 p nm i now") auto
    with AddDirEntry_no_panic [OF C(2)] have "e \<noteq> IndexPanic" by auto
    with H e C(3) show ?thesis by (simp add: as_errno_def)
  qed
qed

lemma not_empty_text: "Contains (error_text (DirNotEmpty i)) ''not empty''"
proof -
  have "error_text (DirNotEmpty i) = (''directory '' @ fmt_ino i @ '' is '') @ ''not empty'' @ []" by (simp add: error_text_def)
  then show ?thesis unfolding Contains_iff sublist_def by blast
qed

lemma Rmdir_cases:
  assumes inv: "index_inv (f_idx f)"
  shows "Rmdir p nm now f =
    (case Lookup (f_idx f) p nm of
       None \<Rightarrow> (Inl ENOENT, f)
     | Some c \<Rightarrow>
         if \<not> is_dir (f_idx f) c then (Inl ENOTDIR, f)
         else if children (f_idx f) c \<noteq> [] then (Inl ENOTEMPTY, f)
         else (Inr (), f\<lparr>f_idx := projr (RemoveDirEntry (f_idx f) p nm now)\<rparr>))"
proof (cases "Lookup (f_idx f) p nm")
  case None
  then show ?thesis by (simp add: Rmdir_def)
next
  case (Some c)
  let ?idx = "f_idx f"
  note L = inv_Lookup [OF inv Some]
  from L(1) obtain n where n: "map_of (inodes ?idx) c = Some n" ..
  then have d: "is_dir ?idx c \<longleftrightarrow> FileType n = Directory" by (simp add: is_dir_def)
  show ?thesis
  proof (cases "is_dir ?idx c \<and> children ?idx c \<noteq> []")
    case True
    have "map_of (inodes ?idx) p \<noteq> None"
      using L(3) inv_absent(1) [OF inv, of p] by (cases "map_of (inodes ?idx) p") simp_all
    then have "RemoveDirEntry ?idx p nm now = Inl (DirNotEmpty c)"
      using Some n True d by (auto simp: RemoveDirEntry_def)
    then show ?thesis using Some n True d not_empty_text [of c] by (simp add: Rmdir_def GetInode_def as_errno_def)
  next
    case False
    show ?thesis
    proof (cases "is_dir ?idx c")
      case True
      then have "children ?idx c = []" using False by simp
      then obtain idx' where "RemoveDirEntry ?idx p nm now = Inr idx'" using RemoveDirEntry_succeeds [OF inv] Some by blast
      then show ?thesis using Some n True False d by (simp add: Rmdir_def GetInode_def)
    next
      case False
      then show ?thesis using Some n d by (simp add: Rmdir_def GetInode_def)
    qed
  qed
qed

section \<open>Listing\<close>

lemma list_children_all:
  assumes "\<forall>e \<in> set es. GetInode idx (ChildIno e) \<noteq> None"
  shows "map D_Name (list_children idx es) = map Name es" and "map D_Ino (list_children idx es) = map ChildIno es"
    and "d \<in> set (list_children idx es) \<Longrightarrow> \<exists>n. GetInode idx (D_Ino d) = Some n \<and> D_Mode d = FileType n"
  using assms by (induction es) (auto split: option.splits)

lemma Node_Readdir_ok:
  assumes inv: "index_inv (f_idx f)" and d: "is_dir (f_idx f) i"
  obtains es where "Node_Readdir i f = Inr (\<lparr>D_Mode = Directory, D_Name = ''.'', D_Ino = i\<rparr>
      # \<lparr>D_Mode = Directory, D_Name = ''..'', D_Ino = GetParentIno (f_idx f) i\<rparr> # es)"
    and "distinct (map D_Name es)"
    and "\<And>nm j. (\<exists>x \<in> set es. D_Name x = nm \<and> D_Ino x = j) \<longleftrightarrow> Lookup (f_idx f) i nm = Some j"
    and "\<And>x. x \<in> set es \<Longrightarrow> \<exists>out. Node_Lookup i (D_Name x) f = Inr out \<and> E_Ino out = D_Ino x \<and> E_Type out = D_Mode x"
proof -
  let ?idx = "f_idx f"
  obtain es where es: "Readdir ?idx i = Inr es" "distinct (map Name es)"
    "\<And>e. e \<in> set es \<longleftrightarrow> ParentIno e = i \<and> Lookup ?idx i (Name e) = Some (ChildIno e)"
    using Readdir_entries [OF inv d] by metis
  have ex: "\<forall>e \<in> set es. GetInode ?idx (ChildIno e) \<noteq> None"
    using es(3) inv_Lookup(1) [OF inv] by (fastforce simp: GetInode_def)
  note L = list_children_all [OF ex]
  obtain n where n: "GetInode ?idx i = Some n" "FileType n = Directory" using d by (auto simp: is_dir_def GetInode_def)
  have pairs: "map (\<lambda>x. (D_Name x, D_Ino x)) (list_children ?idx es) = map (\<lambda>e. (Name e, ChildIno e)) es"
    using L(1,2) by (simp add: list_eq_iff_nth_eq)
  have mem: "(\<exists>x \<in> set (list_children ?idx es). D_Name x = nm \<and> D_Ino x = j) \<longleftrightarrow> Lookup ?idx i nm = Some j" for nm j
  proof -
    have "(\<exists>x \<in> set (list_children ?idx es). D_Name x = nm \<and> D_Ino x = j)
        \<longleftrightarrow> (nm, j) \<in> set (map (\<lambda>x. (D_Name x, D_Ino x)) (list_children ?idx es))" by auto
    also have "\<dots> \<longleftrightarrow> (\<exists>e \<in> set es. Name e = nm \<and> ChildIno e = j)" unfolding pairs by auto
    also have "\<dots> \<longleftrightarrow> Lookup ?idx i nm = Some j"
    proof
      assume "Lookup ?idx i nm = Some j"
      then have "\<lparr>ParentIno = i, Name = nm, ChildIno = j\<rparr> \<in> set es" unfolding es(3) by simp
      then show "\<exists>e \<in> set es. Name e = nm \<and> ChildIno e = j" by (rule rev_bexI) simp
    qed (use es(3) in auto)
    finally show ?thesis .
  qed
  show thesis
  proof (rule that [of "list_children ?idx es"])
    show "Node_Readdir i f = Inr (\<lparr>D_Mode = Directory, D_Name = ''.'', D_Ino = i\<rparr>
      # \<lparr>D_Mode = Directory, D_Name = ''..'', D_Ino = GetParentIno ?idx i\<rparr> # list_children ?idx es)"
      using n es(1) by (simp add: Node_Readdir_def)
    show "distinct (map D_Name (list_children ?idx es))" using L(1) es(2) by simp
    show "\<exists>out. Node_Lookup i (D_Name x) f = Inr out \<and> E_Ino out = D_Ino x \<and> E_Type out = D_Mode x"
      if x: "x \<in> set (list_children ?idx es)" for x
    proof -
      have "Lookup ?idx i (D_Name x) = Some (D_Ino x)" using mem x by blast
      with L(3) [OF x] show ?thesis by (auto simp: Node_Lookup_def entry_reply_def)
    qed
  qed (rule mem)
qed

section \<open>Attributes\<close>

lemma smod_nonneg: "0 \<le> a \<Longrightarrow> 0 < b \<Longrightarrow> a smod b = a mod (b :: int)"
  by (cases "a = 0") (simp_all add: signed_modulo_int_def)

lemma join_time_split:
  assumes "uint s < 2 ^ 33" and "uint ns < 10 ^ 9"
  shows "word_of_int (join_time s ns sdiv 10 ^ 9) = s" and "word_of_int (join_time s ns smod 10 ^ 9) = ns"
proof -
  have ss: "sint s = uint s" using assms(1) by (simp add: sint_uint) (intro signed_take_bit_int_eq_self; simp add: order_less_le_trans [of "uint s"] order_trans [of _ 0])
  have j: "join_time s ns = uint s * 10 ^ 9 + uint ns"
    using assms by (simp add: join_time_def ss i64_nonneg)
  have d: "join_time s ns sdiv 10 ^ 9 = uint s" unfolding j using assms by (simp add: sdiv_nonneg)
  have m: "join_time s ns smod 10 ^ 9 = uint ns"
    unfolding j using assms by (simp add: smod_nonneg)
  show "word_of_int (join_time s ns sdiv 10 ^ 9) = s" unfolding d by simp
  show "word_of_int (join_time s ns smod 10 ^ 9) = ns" unfolding m by simp
qed

end
