(* ===== verification/Fuse_Props.thy ===== *)
theory Fuse_Props
  imports Fuse_Names Chunk_Store_Props Persist_Props
begin

text \<open>
  The properties of the file system, for every backing store that keeps its contract. The
  instances start from a file system with one empty file \<^verbatim>\<open>a\<close> on the local store and write
  to it.
\<close>

section \<open>A concrete file system\<close>

definition ex_S :: "osfs Store" where "ex_S = LocalStore ex_dir"

definition ex_f0 :: "osfs Fusey" where "ex_f0 = New_fusey ex2 ex_cs ex_fs ex_fs 100 (Some [''h''])"
definition ex_f1 :: "osfs Fusey" where "ex_f1 = snd (FileHandle_Write ex_S 2 ''hello'' 0 5 ex_f0)"
definition ex_f2 :: "osfs Fusey" where "ex_f2 = snd (FileHandle_Write ex_S 2 ''XY'' 1 6 ex_f1)"

definition ex_bits :: fattr_bits where
  "ex_bits = \<lparr>FATTR_MODE = 1, FATTR_UID = 2, FATTR_GID = 4, FATTR_SIZE = 8, FATTR_ATIME = 16, FATTR_MTIME = 32\<rparr>"


lemma ex_write1: "FileHandle_Write ex_S 2 ''hello'' 0 5 ex_f0 = (Inr 5, ex_f1)"
proof -
  have "fst (FileHandle_Write ex_S 2 ''hello'' 0 5 ex_f0) = Inr 5" by code_simp
  then show ?thesis by (simp add: ex_f1_def prod_eq_iff)
qed

lemma ex_write2: "FileHandle_Write ex_S 2 ''XY'' 1 6 ex_f1 = (Inr 2, ex_f2)"
proof -
  have "fst (FileHandle_Write ex_S 2 ''XY'' 1 6 ex_f1) = Inr 2" by code_simp
  then show ?thesis by (simp add: ex_f2_def prod_eq_iff)
qed

lemma ex_f0_inv: "sys_inv (local_objs ex_dir) (no_subdirs ex_dir) (ex_f0, {})"
proof -
  have "extents ex2 = [(2, [])]" by code_simp
  then have "file_extents ex2 i = []" for i by (simp add: file_extents_def)
  then have "owned V ex2 {}" for V by (simp add: owned_def occs_def separate_def)
  then show ?thesis using ex_invs(3) ex_no_subdirs ex_cs_inv
    by (simp add: sys_inv_def ex_f0_def New_fusey_def fview_def apart_def) (simp add: ex_cs_def)
qed

lemma ex_seq: "nextSeq (f_cs ex_f0) < 2 ^ 63 - 1" "nextSeq (f_cs ex_f1) < 2 ^ 63 - 1"
proof -
  show "nextSeq (f_cs ex_f0) < 2 ^ 63 - 1" by (simp add: ex_f0_def New_fusey_def ex_cs_def NewChunkStore_def)
  have "nextSeq (f_cs ex_f1) = 1" by code_simp
  then show "nextSeq (f_cs ex_f1) < 2 ^ 63 - 1" by simp
qed

lemma ex_fs_steps: "fs_step ex_S B enc ex_f0 ex_f1" "fs_step ex_S B enc ex_f1 ex_f2"
  using h_write [OF ex_write1] h_write [OF ex_write2] ex_seq by simp_all

lemma ex_f_inv: "sys_inv (local_objs ex_dir) (no_subdirs ex_dir) (ex_f1, {})"
  "sys_inv (local_objs ex_dir) (no_subdirs ex_dir) (ex_f2, {})"
proof -
  note st = ex_fs_steps [unfolded ex_S_def]
  show 1: "sys_inv (local_objs ex_dir) (no_subdirs ex_dir) (ex_f1, {})" using loc.fs_step_inv [OF st(1) ex_f0_inv] by blast
  show "sys_inv (local_objs ex_dir) (no_subdirs ex_dir) (ex_f2, {})" using loc.fs_step_inv [OF st(2) 1] by blast
qed

lemma ex_inode1: "\<exists>n. GetInode (f_idx ex_f1) 2 = Some n \<and> FileType n = Regular \<and> Size n = 5"
proof -
  have "case GetInode (f_idx ex_f1) 2 of None \<Rightarrow> False | Some n \<Rightarrow> FileType n = Regular \<and> Size n = 5" by code_simp
  then show ?thesis by (auto split: option.splits)
qed

lemma ex_data0: "file_data (fview (local_objs ex_dir) ex_f0) (f_idx ex_f0) 2 = []"
  by code_simp

lemma ex_good: "local_good ex_dir (f_store ex_f1)" "disk_good (f_cs ex_f1) (f_disk ex_f1)"
proof -
  have "f_store ex_f1 = ex_fs" "f_disk ex_f1 = ex_fs" "cache (f_cs ex_f1) = Some [''c'']" by code_simp+
  then show "local_good ex_dir (f_store ex_f1)" "disk_good (f_cs ex_f1) (f_disk ex_f1)"
    by (simp_all add: disk_good_def local_good_def no_subdirs_def ex_fs_def ex_dir_def)
qed

section \<open>Runs\<close>





section \<open>Files\<close>

text \<open>C25. Writing refines the POSIX write: when \<^verbatim>\<open>Write\<close> succeeds, the content of the file is the old
  content with the data in place at the offset, padded with zero bytes if the offset is
  beyond the end, the content of every other file is unchanged, and the length of the data is
  returned. The write must not cut an extent other than the file's last one in two.\<close>

theorem write_refines:
  assumes "store_contract S objs swf" and "sys_inv objs swf (f, P)" and "data \<noteq> []" and "0 \<le> off"
    and "off + int (length data) < 2 ^ 63" and "nextSeq (f_cs f) < 2 ^ 63 - 1"
    and "write_safe (f_idx f) i off (length data)" and "FileHandle_Write S i data off now f = (Inr w, f')"
  shows "w = of_nat (length data) \<and> (\<forall>j. file_data (fview objs f') (f_idx f') j =
      (if j = i then posix_write (nat off) data (file_data (fview objs f) (f_idx f) i) else file_data (fview objs f) (f_idx f) j))"
  using store_contract.Write_posix [OF assms] by blast

theorem write_refines_witness: "file_data (fview (local_objs ex_dir) ex_f1) (f_idx ex_f1) 2 = ''hello''"
proof -
  have "write_safe (f_idx ex_f0) 2 0 (length ''hello'')" by code_simp
  from write_refines [OF loc.store_contract_axioms ex_f0_inv _ _ _ ex_seq(1) this ex_write1 [unfolded ex_S_def]]
  show ?thesis by (simp add: ex_data0 posix_write_def)
qed

lemma ex_data1: "file_data (fview (local_objs ex_dir) ex_f1) (f_idx ex_f1) 2 = ''hello''"
  by code_simp

text \<open>C26. Reading refines the POSIX read: when \<^verbatim>\<open>Read\<close> of a regular file returns data, it is the content
  of the file from the offset, as many bytes as asked for or as there are, with zero bytes for
  the holes; no file's content changes.\<close>

theorem read_refines:
  assumes "store_contract S objs swf" and "sys_inv objs swf (f, P)" and "GetInode (f_idx f) i = Some n"
    and "FileType n = Regular" and "0 \<le> off" and "off + int dest < 2 ^ 63" and "0 < dest"
    and "FileHandle_Read S i dest off now f = (Inr b, f')"
  shows "b = posix_read (nat off) dest (file_data (fview objs f) (f_idx f) i)
    \<and> (\<forall>j. file_data (fview objs f') (f_idx f') j = file_data (fview objs f) (f_idx f) j)"
  using store_contract.Read_posix [OF assms] by blast

theorem read_refines_witness: "fst (FileHandle_Read ex_S 2 3 1 9 ex_f1) = Inr ''ell''"
proof -
  obtain n where n: "GetInode (f_idx ex_f1) 2 = Some n" "FileType n = Regular" using ex_inode1 by blast
  have "\<not> isl (fst (FileHandle_Read ex_S 2 3 1 9 ex_f1))" by code_simp
  then obtain b f' where r: "FileHandle_Read ex_S 2 3 1 9 ex_f1 = (Inr b, f')"
    by (cases "FileHandle_Read ex_S 2 3 1 9 ex_f1") (metis fst_conv isl_def sum.exhaust)
  from read_refines [OF loc.store_contract_axioms ex_f_inv(1) n _ _ _ r [unfolded ex_S_def]]
  have "b = ''ell''" by (simp add: ex_data1 posix_read_def)
  with r show ?thesis by simp
qed

text \<open>C27. Truncating refines the POSIX truncate: \<^verbatim>\<open>Setattr\<close> with a size succeeds on a regular file and
  cuts its content there or extends it with zero bytes, and no other file's content changes.\<close>

theorem truncate_refines:
  assumes "index_inv (f_idx f)" and "GetInode (f_idx f) i = Some n" and "FileType n = Regular"
    and "S_Valid req AND FATTR_SIZE B \<noteq> 0" and "0 \<le> sint (S_Size req)" and "Setattr B i req now f = (r, f')"
  shows "(\<exists>a. r = Inr a) \<and> (\<forall>j. file_data (fview objs f') (f_idx f') j =
      (if j = i then posix_truncate (nat (sint (S_Size req))) (file_data (fview objs f) (f_idx f) i)
       else file_data (fview objs f) (f_idx f) j))"
  using Setattr_posix [OF assms] by (simp add: fview_def)

definition ex_req :: SetAttrIn where
  "ex_req = \<lparr>S_Valid = 8, S_Mode = 0, S_Uid = 0, S_Gid = 0, S_Size = 2, S_Atime = 0, S_Atimensec = 0, S_Mtime = 0, S_Mtimensec = 0\<rparr>"

theorem truncate_refines_witness:
  "file_data (fview (local_objs ex_dir) (snd (Setattr ex_bits 2 ex_req 9 ex_f1))) (f_idx (snd (Setattr ex_bits 2 ex_req 9 ex_f1))) 2 = ''he''"
proof -
  obtain n where n: "GetInode (f_idx ex_f1) 2 = Some n" "FileType n = Regular" using ex_inode1 by blast
  have v: "S_Valid ex_req AND FATTR_SIZE ex_bits \<noteq> 0" "0 \<le> sint (S_Size ex_req)" "nat (sint (S_Size ex_req)) = 2"
    by (simp_all add: ex_req_def ex_bits_def)
  have i: "index_inv (f_idx ex_f1)" using ex_f_inv(1) by (simp add: sys_inv_def)
  obtain r f' where r: "Setattr ex_bits 2 ex_req 9 ex_f1 = (r, f')" by force
  from truncate_refines [OF i n v(1,2) r, of "local_objs ex_dir"] show ?thesis
    by (simp add: r v(3) ex_data1 posix_truncate_def)
qed

text \<open>C28. On a working store and disk the file system makes progress: a read of a regular file
  always returns data, and a write that fits in a chunk and in the capacity always succeeds.\<close>

theorem fs_progress:
  assumes "store_live S objs swf good" and "sys_inv objs swf (f, P)" and "good (f_store f)"
    and "disk_good (f_cs f) (f_disk f)" and "GetInode (f_idx f) i = Some n" and "FileType n = Regular"
  shows "(0 \<le> off \<longrightarrow> off + int dest < 2 ^ 63 \<longrightarrow> 0 < dest \<longrightarrow> (\<exists>b f'. FileHandle_Read S i dest off now f = (Inr b, f')))
    \<and> (int (length data) \<le> maxChunkSize (f_cs f) \<longrightarrow>
        \<not> (Size n < i64 (off + int (length data))
          \<and> maxFSSize f < i64 (UsedBytes (f_idx f) + i64 (i64 (off + int (length data)) - Size n))) \<longrightarrow>
        (\<exists>f'. FileHandle_Write S i data off now f = (Inr (of_nat (length data)), f')))"
  using store_live.FileHandle_Read_live [OF assms] store_live.FileHandle_Write_live [OF assms] by blast

theorem fs_progress_witness:
  "\<exists>b f'. FileHandle_Read (LocalStore ex_dir) 2 3 1 9 ex_f1 = (Inr b, f')"
proof -
  obtain n where n: "GetInode (f_idx ex_f1) 2 = Some n" "FileType n = Regular" using ex_inode1 by blast
  from fs_progress [OF loc.store_live_axioms ex_f_inv(1) ex_good n, of 1 3 9 "''x''"] show ?thesis by simp
qed

text \<open>C29. A write never pushes the file system over its capacity: after a successful write the
  files together are no larger than before, or than the capacity.\<close>

theorem write_capacity:
  assumes "index_inv (f_idx f)" and "0 \<le> off" and "off + int (length data) < 2 ^ 62"
    and "0 \<le> used_total (f_idx f)" and "used_total (f_idx f) < 2 ^ 62"
    and "FileHandle_Write S i data off now f = (Inr w, f')"
  shows "used_total (f_idx f') \<le> max (used_total (f_idx f)) (maxFSSize f)"
  by (rule FileHandle_Write_capacity [OF assms(1,2) _ assms(4,5,3,6)]) (use assms(3) in simp)

theorem write_capacity_witness: "used_total (f_idx ex_f1) \<le> 100"
proof -
  have u: "used_total (f_idx ex_f0) = 0" by code_simp
  have m: "maxFSSize ex_f0 = 100" by (simp add: ex_f0_def New_fusey_def)
  have i: "index_inv (f_idx ex_f0)" using ex_f0_inv by (simp add: sys_inv_def)
  from write_capacity [OF i _ _ _ _ ex_write1] u m show ?thesis by simp
qed












end
