(* ===== verification/Spec2Isabelle.thy ===== *)
theory Spec2Isabelle
  imports Persist_Props Compactor_Props Fuse_Props
begin

text \<open>
  A verification development of fusey, a FUSE file system over an object store.
\<close>

end
